theory Spec2Isabelle
  imports Complex_Main
begin

section \<open>JavaScript strings\<close>

text \<open>
  Strings are lists of 8-bit characters. The functions of this section are the library
  methods that \<^verbatim>\<open>src/lib/transcription.ts\<close> calls, on that character set.
\<close>

definition is_ws :: "char \<Rightarrow> bool" where
  "is_ws c = (c \<in> set [CHR 0x09, CHR 0x0A, CHR 0x0B, CHR 0x0C, CHR 0x0D, CHR 0x20, CHR 0xA0])"

text \<open>\<^verbatim>\<open>String.prototype.trim\<close>: white space is removed at both ends.\<close>

definition trim :: "string \<Rightarrow> string" where
  "trim s = rev (dropWhile is_ws (rev (dropWhile is_ws s)))"

text \<open>\<^verbatim>\<open>String.prototype.padStart\<close> with a one-character filler.\<close>

definition padStart :: "nat \<Rightarrow> char \<Rightarrow> string \<Rightarrow> string" where
  "padStart targetLength c s = replicate (targetLength - length s) c @ s"

text \<open>
  \<^verbatim>\<open>String.prototype.toLowerCase\<close>, the characters being the code points below 256: the
  capital letters are \<^verbatim>\<open>A\<close> to \<^verbatim>\<open>Z\<close> and U+00C0 to U+00DE without the multiplication
  sign U+00D7, and the small letter is 32 code points further.
\<close>

definition is_upper :: "char \<Rightarrow> bool" where
  "is_upper c =
     (let n = (of_char c :: nat)
      in (65 \<le> n \<and> n \<le> 90) \<or> (192 \<le> n \<and> n \<le> 222 \<and> n \<noteq> 215))"

definition toLowerCase :: "string \<Rightarrow> string" where
  "toLowerCase s = map (\<lambda>c. if is_upper c then char_of ((of_char c :: nat) + 32) else c) s"

text \<open>
  \<^verbatim>\<open>s.split(sep)\<close> for a one-character separator: the pieces between the separators, so
  that a string without separator gives the one-element list of itself.
\<close>

fun split_acc :: "char \<Rightarrow> string \<Rightarrow> string \<Rightarrow> string list" where
  "split_acc sep cur [] = [cur]"
| "split_acc sep cur (c # cs) =
     (if c = sep then cur # split_acc sep [] cs else split_acc sep (cur @ [c]) cs)"

definition split :: "char \<Rightarrow> string \<Rightarrow> string list" where
  "split sep s = split_acc sep [] s"

text \<open>\<^verbatim>\<open>parts.join(sep)\<close>.\<close>

fun join :: "char \<Rightarrow> string list \<Rightarrow> string" where
  "join sep [] = []"
| "join sep [p] = p"
| "join sep (p # q # ps) = p @ sep # join sep (q # ps)"

definition is_digit :: "char \<Rightarrow> bool" where
  "is_digit c = (48 \<le> (of_char c :: nat) \<and> (of_char c :: nat) \<le> 57)"

definition digit_char :: "int \<Rightarrow> char" where
  "digit_char d = char_of (48 + d)"

text \<open>The decimal digits of a non-negative integer.\<close>

function decimal :: "int \<Rightarrow> string" where
  "decimal n = (if n < 10 then [digit_char n] else decimal (n div 10) @ [digit_char (n mod 10)])"
  by pat_completeness auto
termination
  by (relation "measure nat") auto

declare decimal.simps [simp del]

definition digits_value :: "string \<Rightarrow> int" where
  "digits_value ds = foldl (\<lambda>a c. 10 * a + (of_char c - 48)) 0 ds"

section \<open>JavaScript numbers\<close>

text \<open>
  A \<^verbatim>\<open>number\<close> is an IEEE 754 binary64 value: not-a-number, an infinity, or a finite value,
  given by the rational number it denotes. Negative zero is identified with zero; the code
  modelled here prints and compares numbers, and neither tells the two apart.
\<close>

datatype number = NaN | Infinity | NegInfinity | Num rat

function bitlen :: "int \<Rightarrow> int" where
  "bitlen n = (if n \<le> 0 then 0 else 1 + bitlen (n div 2))"
  by pat_completeness auto
termination
  by (relation "measure nat") auto

declare bitlen.simps [simp del]

text \<open>For \<open>x > 0\<close>, the exponent \<open>e\<close> with \<open>2\<^sup>e \<le> x < 2\<^sup>e\<^sup>+\<^sup>1\<close>.\<close>

definition ilog2 :: "rat \<Rightarrow> int" where
  "ilog2 x = (let (p, q) = quotient_of x; d = bitlen p - bitlen q
              in if 2 powi d \<le> x then d else d - 1)"

definition round_half_even :: "rat \<Rightarrow> int" where
  "round_half_even x =
     (let n = \<lfloor>x\<rfloor>; r = x - of_int n
      in if r < 1 / 2 then n else if 1 / 2 < r then n + 1 else if even n then n else n + 1)"

text \<open>
  Rounding of an exact result to binary64, to nearest with ties to even: 53 significant
  bits, gradual underflow below \<open>2\<^sup>-\<^sup>1\<^sup>0\<^sup>2\<^sup>2\<close>, overflow to an infinity.
\<close>

definition to_double :: "rat \<Rightarrow> number" where
  "to_double x =
     (if x = 0 then Num 0
      else let e = max (ilog2 \<bar>x\<bar>) (- 1022);
               u = 2 powi (e - 52);
               r = round_half_even (x / u)
           in if 1024 \<le> e \<or> (e = 1023 \<and> \<bar>r\<bar> = 2 ^ 53)
              then (if 0 < x then Infinity else NegInfinity)
              else Num (of_int r * u))"

text \<open>
  The distance between an exact result and its binary64 rounding is at most half a unit
  in the last place: a relative error of \<open>2\<^sup>-\<^sup>5\<^sup>3\<close>, or \<open>2\<^sup>-\<^sup>1\<^sup>0\<^sup>7\<^sup>5\<close> among the subnormal numbers.
\<close>

definition rounding_bound :: "rat \<Rightarrow> rat" where
  "rounding_bound x = max (\<bar>x\<bar> / 2 ^ 53) (2 powi (- 1075))"

text \<open>\<^verbatim>\<open>Math.floor\<close>; \<^verbatim>\<open>x / d\<close>, \<^verbatim>\<open>x * d\<close> and \<^verbatim>\<open>x % d\<close> for a finite constant \<open>d > 0\<close>. The
  remainder takes the sign of \<open>x\<close> and is exact.\<close>

definition Math_floor :: "number \<Rightarrow> number" where
  "Math_floor x = (case x of Num v \<Rightarrow> Num (of_int \<lfloor>v\<rfloor>) | _ \<Rightarrow> x)"

definition number_div :: "number \<Rightarrow> rat \<Rightarrow> number" where
  "number_div x d = (case x of Num v \<Rightarrow> to_double (v / d) | _ \<Rightarrow> x)"

definition number_mul :: "number \<Rightarrow> rat \<Rightarrow> number" where
  "number_mul x d = (case x of Num v \<Rightarrow> to_double (v * d) | _ \<Rightarrow> x)"

definition number_rem :: "number \<Rightarrow> rat \<Rightarrow> number" where
  "number_rem x d =
     (case x of
        Num v \<Rightarrow> Num (if 0 \<le> v then v - d * of_int \<lfloor>v / d\<rfloor>
                       else v - d * of_int \<lceil>v / d\<rceil>)
      | _ \<Rightarrow> NaN)"

text \<open>\<^verbatim>\<open>x > y\<close>: false as soon as one side is not a number.\<close>

definition number_gt :: "number \<Rightarrow> number \<Rightarrow> bool" where
  "number_gt x y =
     (case (x, y) of
        (NaN, _) \<Rightarrow> False
      | (_, NaN) \<Rightarrow> False
      | (Infinity, Infinity) \<Rightarrow> False
      | (Infinity, _) \<Rightarrow> True
      | (_, Infinity) \<Rightarrow> False
      | (NegInfinity, _) \<Rightarrow> False
      | (_, NegInfinity) \<Rightarrow> True
      | (Num a, Num b) \<Rightarrow> b < a)"

subsection \<open>Number to string\<close>

text \<open>
  \<^verbatim>\<open>Number.prototype.toString\<close> prints the shortest decimal digit string \<open>s\<close> (with \<open>k\<close>
  digits and decimal exponent \<open>n\<close>) that reads back as the same binary64 value, the closest
  one when there are several. An integer below \<open>2\<^sup>5\<^sup>3\<close> prints as its decimal digits.
\<close>

definition ilog10 :: "rat \<Rightarrow> int" where
  "ilog10 x = (let d = (ilog2 x * 30103) div 100000
               in if 10 powi (d + 1) \<le> x then d + 1 else if 10 powi d \<le> x then d else d - 1)"

definition candidates :: "rat \<Rightarrow> int \<Rightarrow> nat \<Rightarrow> (int \<times> int) list" where
  "candidates v n0 k =
     (let lo = \<lfloor>v * 10 powi (int k - n0)\<rfloor>; hi = lo + 1
      in [(n0, lo)] @ (if hi = 10 ^ k then [(n0 + 1, 10 ^ (k - 1))] else [(n0, hi)]))"

definition cand_value :: "nat \<Rightarrow> int \<times> int \<Rightarrow> rat" where
  "cand_value k c = of_int (snd c) * 10 powi (fst c - int k)"

definition valid_cand :: "rat \<Rightarrow> nat \<Rightarrow> int \<times> int \<Rightarrow> bool" where
  "valid_cand v k c = (10 ^ (k - 1) \<le> snd c \<and> to_double (cand_value k c) = Num v)"

definition pick_closest :: "rat \<Rightarrow> nat \<Rightarrow> (int \<times> int) list \<Rightarrow> int \<times> int" where
  "pick_closest v k cs =
     (case cs of
        [c] \<Rightarrow> c
      | [a, b] \<Rightarrow>
          (let da = \<bar>cand_value k a - v\<bar>; db = \<bar>cand_value k b - v\<bar>
           in if da < db then a else if db < da then b else if even (snd a) then a else b)
      | _ \<Rightarrow> (0, 0))"

definition shortest_digits :: "rat \<Rightarrow> int \<times> nat \<times> int" where
  "shortest_digits v =
     (let n0 = ilog10 v + 1
      in case List.find (\<lambda>k. filter (valid_cand v k) (candidates v n0 k) \<noteq> []) [1..<18] of
           Some k \<Rightarrow> (let c = pick_closest v k (filter (valid_cand v k) (candidates v n0 k))
                      in (fst c, k, snd c))
         | None \<Rightarrow> (n0, 17, \<lfloor>v * 10 powi (17 - n0)\<rfloor>))"

definition positive_toString :: "rat \<Rightarrow> string" where
  "positive_toString v =
     (if v = of_int \<lfloor>v\<rfloor> \<and> v < 2 ^ 53 then decimal \<lfloor>v\<rfloor>
      else let (n, k, s) = shortest_digits v; ds = decimal s
      in if - 5 \<le> n \<and> n \<le> 21 then
           (if int k \<le> n then ds @ replicate (nat n - k) CHR ''0''
            else if 0 < n then take (nat n) ds @ ''.'' @ drop (nat n) ds
            else ''0.'' @ replicate (nat (- n)) CHR ''0'' @ ds)
         else
           (let e = n - 1;
                ex = (if 0 \<le> e then ''+'' else ''-'') @ decimal \<bar>e\<bar>
            in if k = 1 then ds @ ''e'' @ ex
               else take 1 ds @ ''.'' @ drop 1 ds @ ''e'' @ ex))"

definition number_toString :: "number \<Rightarrow> string" where
  "number_toString x =
     (case x of
        NaN \<Rightarrow> ''NaN''
      | Infinity \<Rightarrow> ''Infinity''
      | NegInfinity \<Rightarrow> ''-Infinity''
      | Num v \<Rightarrow> if v = 0 then ''0''
                 else if v < 0 then ''-'' @ positive_toString (- v)
                 else positive_toString v)"

subsection \<open>String to number\<close>

text \<open>
  \<^verbatim>\<open>parseFloat\<close> skips leading white space and reads the longest prefix that is a decimal
  literal: a sign, \<^verbatim>\<open>Infinity\<close> or digits with an optional fraction, and an exponent when
  it is complete. Without such a prefix the result is not-a-number.
\<close>

definition exponent_part :: "string \<Rightarrow> int" where
  "exponent_part s =
     (case s of
        [] \<Rightarrow> 0
      | c # r \<Rightarrow>
          if c = CHR ''e'' \<or> c = CHR ''E'' then
            (let (neg, r) = (case r of
                               [] \<Rightarrow> (False, r)
                             | d # r' \<Rightarrow> if d = CHR ''-'' then (True, r')
                                         else if d = CHR ''+'' then (False, r') else (False, r));
                 ds = takeWhile is_digit r
             in if ds = [] then 0
                else if neg then - digits_value ds else digits_value ds)
          else 0)"

definition parseFloat :: "string \<Rightarrow> number" where
  "parseFloat inputString =
     (let s = dropWhile is_ws inputString;
          (neg, s) = (case s of
                        [] \<Rightarrow> (False, s)
                      | c # r \<Rightarrow> if c = CHR ''-'' then (True, r)
                                 else if c = CHR ''+'' then (False, r) else (False, s))
      in if take 8 s = ''Infinity'' then (if neg then NegInfinity else Infinity)
         else
           (let ip = takeWhile is_digit s;
                s1 = dropWhile is_digit s;
                (fp, s2) = (case s1 of
                              [] \<Rightarrow> ([], s1)
                            | c # r \<Rightarrow> if c = CHR ''.''
                                       then (takeWhile is_digit r, dropWhile is_digit r)
                                       else ([], s1))
            in if ip = [] \<and> fp = [] then NaN
               else
                 (let m = of_int (digits_value (ip @ fp))
                            * 10 powi (exponent_part s2 - int (length fp))
                  in to_double (if neg then - m else m))))"

section \<open>Thrown values\<close>

text \<open>
  What a \<^verbatim>\<open>throw\<close> or a rejected promise carries: an instance of \<^verbatim>\<open>Error\<close> (of any subclass)
  with its message, or any other value, given by its \<^verbatim>\<open>String(...)\<close> rendering.
\<close>

datatype thrown = Error string | NonError string

section \<open>Data model\<close>

text \<open>
  The transcript document of the speech-to-text provider, as far as
  \<^verbatim>\<open>src/lib/transcription.ts\<close> reads it. A field that may be missing in the JSON is
  an \<open>option\<close>; \<open>None\<close> stands for JavaScript's \<^verbatim>\<open>undefined\<close>.
\<close>

record alternative =
  content :: string

record item =
  item_type :: string
  start_time :: "string option"
  end_time :: "string option"
  alternatives :: "alternative list"

record transcript_entry =
  transcript :: string

record transcript_results =
  transcripts :: "transcript_entry list option"
  items :: "item list option"

record transcript_data =
  results :: "transcript_results option"

text \<open>\<^verbatim>\<open>interface TranscribeResult\<close>; \<open>rawTranscriptData\<close> is the optional field.\<close>

record TranscribeResult =
  srtContent :: string
  duration :: string
  rawTranscriptData :: "transcript_data option"

text \<open>The fields of a browser \<^verbatim>\<open>File\<close> that the code reads; \<open>lastModified\<close> is in
  milliseconds since the epoch.\<close>

record File =
  file_name :: string
  file_type :: string
  file_size :: nat
  lastModified :: int

section \<open>Retry wrapper\<close>

text \<open>
  \<^verbatim>\<open>retryOperation(operation, maxRetries = 3, delay = 1000)\<close>. The operation is an effect:
  \<open>operation n\<close> is the outcome of its invocation number \<open>n\<close> (counted from 0), \<open>Inl\<close> a
  thrown error and \<open>Inr\<close> the resolved value. The run records what the caller can observe:
  the outcome (\<open>Inl lastError\<close> for the final \<^verbatim>\<open>throw lastError\<close>, where \<open>lastError\<close> is still
  \<open>None\<close> when no attempt was made), the number of invocations, and the arguments of the
  \<^verbatim>\<open>setTimeout\<close> calls in order.
\<close>

record ('e, 'a) retry_run =
  outcome :: "'e option + 'a"
  calls :: nat
  waits :: "int list"

function retry_loop ::
  "(nat \<Rightarrow> 'e + 'a) \<Rightarrow> int \<Rightarrow> int \<Rightarrow> nat \<Rightarrow> 'e option \<Rightarrow> nat \<Rightarrow> int list
     \<Rightarrow> ('e, 'a) retry_run"
where
  "retry_loop operation maxRetries delay attempt lastError n ws =
     (if int attempt \<le> maxRetries then
        (case operation n of
           Inr v \<Rightarrow> \<lparr>outcome = Inr v, calls = Suc n, waits = ws\<rparr>
         | Inl error \<Rightarrow>
             retry_loop operation maxRetries delay (Suc attempt) (Some error) (Suc n)
               (if int attempt < maxRetries then ws @ [delay * int attempt] else ws))
      else \<lparr>outcome = Inl lastError, calls = n, waits = ws\<rparr>)"
  by pat_completeness auto
termination
  by (relation "measure (\<lambda>(operation, maxRetries, delay, attempt, lastError, n, ws).
        nat (maxRetries + 1 - int attempt))") auto

declare retry_loop.simps [simp del]

definition retryOperation ::
  "(nat \<Rightarrow> 'e + 'a) \<Rightarrow> int \<Rightarrow> int \<Rightarrow> ('e, 'a) retry_run" where
  "retryOperation operation maxRetries delay =
     retry_loop operation maxRetries delay 1 None 0 []"

text \<open>The call with both default arguments.\<close>

definition retryOperation_default :: "(nat \<Rightarrow> 'e + 'a) \<Rightarrow> ('e, 'a) retry_run" where
  "retryOperation_default operation = retryOperation operation 3 1000"

section \<open>Result cache\<close>

text \<open>
  The cache lives in \<^verbatim>\<open>localStorage\<close> under the key \<^verbatim>\<open>transcriptionCache\<close> as one JSON
  object from file hashes (the hexadecimal SHA-256 digests of \<^verbatim>\<open>generateFileHash\<close>) to
  entries. The storage is \<open>None\<close> while the key is unset, which the code reads as
  \<^verbatim>\<open>'{}'\<close>. \<open>now\<close> is the value of \<^verbatim>\<open>Date.now()\<close> at the call. The keys are the digests,
  strings of 64 hexadecimal digits; the one property name that a JavaScript object does not
  store as an entry of its own, \<^verbatim>\<open>__proto__\<close>, is not among them, and the map stands for
  the object on the digests.
\<close>

record cache_entry =
  result :: TranscribeResult
  timestamp :: int

type_synonym cache = "string \<rightharpoonup> cache_entry"

definition parse_cache :: "cache option \<Rightarrow> cache" where
  "parse_cache storage = (case storage of None \<Rightarrow> Map.empty | Some c \<Rightarrow> c)"

definition cacheTranscriptionResult ::
  "int \<Rightarrow> cache option \<Rightarrow> string \<Rightarrow> TranscribeResult \<Rightarrow> cache option" where
  "cacheTranscriptionResult now storage fileHash res =
     (let cache = parse_cache storage;
          cache = cache(fileHash \<mapsto> \<lparr>result = res, timestamp = now\<rparr>)
      in Some cache)"

text \<open>The lookup returns its value together with the storage, which it never writes.\<close>

definition getCachedTranscription ::
  "int \<Rightarrow> cache option \<Rightarrow> string \<Rightarrow> TranscribeResult option \<times> cache option" where
  "getCachedTranscription now storage fileHash =
     (let cache = parse_cache storage in
      case cache fileHash of
        Some entry \<Rightarrow>
          if now - timestamp entry < 24 * 60 * 60 * 1000 then (Some (result entry), storage)
          else (None, storage)
      | None \<Rightarrow> (None, storage))"

section \<open>Format converter\<close>

text \<open>\<^verbatim>\<open>formatSrtTime(seconds)\<close>.\<close>

definition formatSrtTime :: "number \<Rightarrow> string" where
  "formatSrtTime seconds =
     (let hours = Math_floor (number_div seconds 3600);
          minutes = Math_floor (number_div (number_rem seconds 3600) 60);
          secs = Math_floor (number_rem seconds 60);
          milliseconds = Math_floor (number_mul (number_rem seconds 1) 1000)
      in padStart 2 CHR ''0'' (number_toString hours) @ '':''
         @ padStart 2 CHR ''0'' (number_toString minutes) @ '':''
         @ padStart 2 CHR ''0'' (number_toString secs) @ '',''
         @ padStart 3 CHR ''0'' (number_toString milliseconds))"

text \<open>
  A timestamp variable holds a string or \<^verbatim>\<open>undefined\<close>. It is truthy when it is a
  non-empty string; as an argument of \<^verbatim>\<open>parseFloat\<close> it is converted to a string.
\<close>

definition truthy :: "string option \<Rightarrow> bool" where
  "truthy v = (case v of None \<Rightarrow> False | Some s \<Rightarrow> s \<noteq> [])"

definition js_string :: "string option \<Rightarrow> string" where
  "js_string v = (case v of None \<Rightarrow> ''undefined'' | Some s \<Rightarrow> s)"

text \<open>
  The local variables of the loop in \<^verbatim>\<open>convertTranscriptToSrt\<close>; \<open>srt\<close> is the variable
  \<^verbatim>\<open>srtContent\<close>. The loop counts at most \<open>2\<^sup>3\<^sup>2\<close> array elements, so \<open>index\<close> prints as its
  decimal digits.
\<close>

record walk_state =
  srt :: string
  index :: nat
  currentLine :: string
  startTime :: "string option"
  endTime :: "string option"

definition initial_walk_state :: walk_state where
  "initial_walk_state =
     \<lparr>srt = [], index = 1, currentLine = [], startTime = Some [], endTime = Some []\<rparr>"

text \<open>Reading \<^verbatim>\<open>item.alternatives[0].content\<close> of an item without alternatives throws a
  \<^verbatim>\<open>TypeError\<close>; the message is the engine's.\<close>

definition no_alternative :: thrown where
  "no_alternative = Error ''Cannot read properties of undefined (reading 'content')''"

text \<open>The first part of the loop body: the item is added to the line buffer.\<close>

definition absorb :: "item \<Rightarrow> walk_state \<Rightarrow> thrown + walk_state" where
  "absorb item st =
     (if item_type item = ''pronunciation'' then
        (case alternatives item of
           [] \<Rightarrow> Inl no_alternative
         | a # _ \<Rightarrow>
             Inr (st\<lparr>startTime := (if currentLine st = [] then start_time item else startTime st),
                     currentLine := currentLine st @ content a @ '' '',
                     endTime := end_time item\<rparr>))
      else if item_type item = ''punctuation'' then
        (case alternatives item of
           [] \<Rightarrow> Inl no_alternative
         | a # _ \<Rightarrow> Inr (st\<lparr>currentLine := trim (currentLine st) @ content a\<rparr>))
      else Inr st)"

text \<open>The condition under which the loop body then emits a block.\<close>

definition should_emit :: "bool \<Rightarrow> item \<Rightarrow> walk_state \<Rightarrow> bool" where
  "should_emit isLastItem item st =
     (let isPunctuation = (item_type item = ''punctuation'');
          isEndOfSentence =
            (isPunctuation \<and>
             (case alternatives item of
                [] \<Rightarrow> False
              | a # _ \<Rightarrow> content a \<in> set [''.'', ''?'', ''!'']))
      in (isEndOfSentence \<or> isLastItem) \<and> truthy (startTime st) \<and> truthy (endTime st))"

text \<open>The emission itself: \<open>endTime\<close> is not reset.\<close>

definition emit :: "walk_state \<Rightarrow> walk_state" where
  "emit st =
     (let srtStartTime = formatSrtTime (parseFloat (js_string (startTime st)));
          srtEndTime = formatSrtTime (parseFloat (js_string (endTime st)));
          s = srt st @ decimal (int (index st)) @ ''\<newline>'';
          s = s @ srtStartTime @ '' --> '' @ srtEndTime @ ''\<newline>'';
          s = s @ trim (currentLine st) @ ''\<newline>\<newline>''
      in st\<lparr>srt := s, index := Suc (index st), currentLine := [], startTime := Some []\<rparr>)"

fun walk :: "item list \<Rightarrow> walk_state \<Rightarrow> thrown + walk_state" where
  "walk [] st = Inr st"
| "walk (item # rest) st =
     (case absorb item st of
        Inl e \<Rightarrow> Inl e
      | Inr st1 \<Rightarrow> walk rest (if should_emit (rest = []) item st1 then emit st1 else st1))"

definition fixed_window :: "string \<Rightarrow> string" where
  "fixed_window fullText =
     ''1\<newline>00:00:00,000 --> 00:05:00,000\<newline>'' @ fullText @ ''\<newline>\<newline>''"

definition convertTranscriptToSrt :: "transcript_data \<Rightarrow> thrown + string" where
  "convertTranscriptToSrt transcriptData =
     (case results transcriptData of
        None \<Rightarrow> Inr []
      | Some res \<Rightarrow>
          (case transcripts res of
             None \<Rightarrow> Inr []
           | Some ts \<Rightarrow>
               if ts \<noteq> [] \<and> (items res = None \<or> items res = Some [])
               then Inr (fixed_window (transcript (hd ts)))
               else
                 (case walk (case items res of None \<Rightarrow> [] | Some its \<Rightarrow> its)
                         initial_walk_state of
                    Inl e \<Rightarrow> Inl e
                  | Inr st \<Rightarrow>
                      if srt st = [] \<and> ts \<noteq> [] then Inr (fixed_window (transcript (hd ts)))
                      else Inr (srt st))))"

subsection \<open>Subtitle blocks\<close>

text \<open>
  The subtitle format: a block is its index, a line with the two timestamps, the text and
  a blank line. A track is a list of blocks, numbered consecutively from a first index.
\<close>

record block =
  block_start :: string
  block_end :: string
  block_text :: string

definition srt_block :: "nat \<Rightarrow> block \<Rightarrow> string" where
  "srt_block i b =
     decimal (int i) @ ''\<newline>'' @ block_start b @ '' --> '' @ block_end b @ ''\<newline>''
     @ block_text b @ ''\<newline>\<newline>''"

fun render_blocks :: "nat \<Rightarrow> block list \<Rightarrow> string" where
  "render_blocks i [] = []"
| "render_blocks i (b # bs) = srt_block i b @ render_blocks (Suc i) bs"

text \<open>
  The emissions of a walk, for reasoning about it: for each block, the items that the loop
  has processed since the previous block (or since its start) and the state in which the
  block is emitted. \<open>seg\<close> collects the items since the previous block.
\<close>

fun emissions :: "item list \<Rightarrow> walk_state \<Rightarrow> item list \<Rightarrow> (item list \<times> walk_state) list" where
  "emissions [] st seg = []"
| "emissions (item # rest) st seg =
     (case absorb item st of
        Inl e \<Rightarrow> []
      | Inr st1 \<Rightarrow>
          if should_emit (rest = []) item st1
          then (seg @ [item], st1) # emissions rest (emit st1) []
          else emissions rest st1 (seg @ [item]))"

definition block_of :: "walk_state \<Rightarrow> block" where
  "block_of st =
     \<lparr>block_start = formatSrtTime (parseFloat (js_string (startTime st))),
      block_end = formatSrtTime (parseFloat (js_string (endTime st))),
      block_text = trim (currentLine st)\<rparr>"

definition pronunciations :: "item list \<Rightarrow> item list" where
  "pronunciations seg = filter (\<lambda>it. item_type it = ''pronunciation'') seg"

text \<open>The blocks of the track that the converter returns for a transcript.\<close>

definition converted_blocks :: "transcript_data \<Rightarrow> block list" where
  "converted_blocks transcriptData =
     (case results transcriptData of
        None \<Rightarrow> []
      | Some res \<Rightarrow>
          (case transcripts res of
             None \<Rightarrow> []
           | Some ts \<Rightarrow>
               (let walked = map (block_of \<circ> snd)
                               (emissions (case items res of None \<Rightarrow> [] | Some its \<Rightarrow> its)
                                  initial_walk_state [])
                in if walked = [] \<and> ts \<noteq> []
                   then [\<lparr>block_start = ''00:00:00,000'', block_end = ''00:05:00,000'',
                          block_text = transcript (hd ts)\<rparr>]
                   else walked)))"

text \<open>
  Three predicates on a state of the walk and the items \<open>seg\<close> processed since the previous
  block. \<open>times_from\<close>: the two timestamp variables come from pronunciation items of
  \<open>seg\<close>, the end time from the last of them. \<open>marks_nonempty\<close>: no punctuation item has
  an empty content. \<open>first_start\<close>: the line buffer is not empty once \<open>seg\<close> has a
  pronunciation item, and a truthy start time is that of the first one.
\<close>

definition times_from :: "item list \<Rightarrow> walk_state \<Rightarrow> bool" where
  "times_from seg st =
     (pronunciations seg \<noteq> []
      \<and> endTime st = end_time (last (pronunciations seg))
      \<and> (\<exists>p \<in> set (pronunciations seg). startTime st = start_time p))"

definition marks_nonempty :: "item list \<Rightarrow> bool" where
  "marks_nonempty its =
     (\<forall>q \<in> set its. item_type q = ''punctuation'' \<longrightarrow>
        (case alternatives q of [] \<Rightarrow> True | a # _ \<Rightarrow> content a \<noteq> []))"

definition first_start :: "item list \<Rightarrow> walk_state \<Rightarrow> bool" where
  "first_start seg st =
     ((pronunciations seg \<noteq> [] \<longrightarrow> currentLine st \<noteq> [])
      \<and> (truthy (startTime st) \<longrightarrow>
            pronunciations seg \<noteq> [] \<and> startTime st = start_time (hd (pronunciations seg))))"

section \<open>Fallback generator\<close>

text \<open>\<^verbatim>\<open>name.replace(/\.[^/.]+$/, "")\<close>: a last dot followed by at least one character, none
  of them a slash, is removed together with what follows it.\<close>

definition strip_extension :: "string \<Rightarrow> string" where
  "strip_extension name =
     (let ext = takeWhile (\<lambda>c. c \<noteq> CHR ''.'') (rev name)
      in if length ext < length name \<and> ext \<noteq> [] \<and> CHR ''/'' \<notin> set ext
         then take (length name - length ext - 1) name
         else name)"

definition simulateTranscription :: "File \<Rightarrow> TranscribeResult" where
  "simulateTranscription file =
     (let fileName = strip_extension (file_name file);
          text = ''1\<newline>00:00:00,000 --> 00:00:05,000\<newline>This is a simulated transcription for ''
                 @ fileName
                 @ ''.\<newline>\<newline>2\<newline>00:00:05,500 --> 00:00:10,000\<newline>The actual transcription service encountered an error.\<newline>\<newline>3\<newline>00:00:10,500 --> 00:00:15,000\<newline>Please check your AWS credentials and try again.\<newline>\<newline>''
      in \<lparr>srtContent = text, duration = ''0:15'', rawTranscriptData = None\<rparr>)"

section \<open>Orchestrator\<close>

text \<open>
  The object store and the transcription service as one run of \<^verbatim>\<open>transcribeAudio\<close> sees
  them. A call either throws (\<open>Inl\<close>) or returns (\<open>Inr\<close>); \<open>s3_upload n\<close> and
  \<open>getTranscriptionJob n\<close> are the outcomes of the call number \<open>n\<close> (from 0) of each
  operation. \<open>url_pathname\<close> is \<^verbatim>\<open>new URL(uri).pathname\<close>, \<open>s3_getObject\<close> gives the text of
  the object's body when there is one, and \<open>JSON_parse\<close> gives the parsed document, \<open>None\<close>
  for the JSON value \<^verbatim>\<open>null\<close>. \<open>now_upload\<close> and \<open>now_job\<close> are the two readings of
  \<^verbatim>\<open>Date.now()\<close>, \<open>bucket\<close> is the configured bucket name.
\<close>

record transcription_job =
  TranscriptionJobStatus :: "string option"
  FailureReason :: "string option"
  TranscriptFileUri :: "string option"

record transcription_params =
  TranscriptionJobName :: string
  LanguageCode :: "string option"
  IdentifyLanguage :: "bool option"
  LanguageOptions :: "string list option"
  MediaFormat :: string
  MediaFileUri :: string
  OutputBucketName :: string

record services =
  bucket :: string
  now_upload :: int
  now_job :: int
  s3_upload :: "nat \<Rightarrow> thrown + unit"
  startTranscriptionJob :: "transcription_params \<Rightarrow> thrown + unit"
  getTranscriptionJob :: "nat \<Rightarrow> thrown + transcription_job option"
  url_pathname :: "string \<Rightarrow> thrown + string"
  s3_getObject :: "string \<Rightarrow> thrown + string option"
  JSON_parse :: "string \<Rightarrow> thrown + transcript_data option"

text \<open>\<^verbatim>\<open>file.name.split('.').pop()?.toLowerCase() || 'mp3'\<close>.\<close>

definition mediaFormat :: "string \<Rightarrow> string" where
  "mediaFormat name =
     (case rev (split CHR ''.'' name) of
        [] \<Rightarrow> ''mp3''
      | lastPart # _ \<Rightarrow> if toLowerCase lastPart = [] then ''mp3'' else toLowerCase lastPart)"

definition transcriptionParams :: "services \<Rightarrow> File \<Rightarrow> string \<Rightarrow> string \<Rightarrow> transcription_params" where
  "transcriptionParams sv file language fileKey =
     \<lparr>TranscriptionJobName = ''job-'' @ decimal (now_job sv),
      LanguageCode = (if language \<noteq> ''auto'' then Some language else None),
      IdentifyLanguage = (if language \<noteq> ''auto'' then None else Some True),
      LanguageOptions =
        (if language \<noteq> ''auto'' then None else Some [''ta-IN'', ''en-US'', ''hi-IN'']),
      MediaFormat = mediaFormat (file_name file),
      MediaFileUri = ''s3://'' @ bucket sv @ ''/'' @ fileKey,
      OutputBucketName = bucket sv\<rparr>"

subsection \<open>Polling\<close>

text \<open>
  The variables of the polling loop, and \<open>logged\<close>: the values that the handler of the
  inner \<^verbatim>\<open>try\<close> has passed to \<^verbatim>\<open>console.error\<close>, in order.
\<close>

record poll_state =
  jobComplete :: bool
  transcriptionJob :: "transcription_job option"
  pollCount :: nat
  logged :: "thrown list"

definition maxPolls :: nat where
  "maxPolls = 60"

definition poll_start :: poll_state where
  "poll_start = \<lparr>jobComplete = False, transcriptionJob = None, pollCount = 0, logged = []\<rparr>"

text \<open>
  The body of the inner \<^verbatim>\<open>try\<close>: the state after the assignments it has made, and the value
  it has thrown if it has.
\<close>

definition poll_try :: "thrown + transcription_job option \<Rightarrow> poll_state \<Rightarrow> poll_state \<times> thrown option" where
  "poll_try response st =
     (case response of
        Inl e \<Rightarrow> (st, Some e)
      | Inr job \<Rightarrow>
          (let st1 = st\<lparr>transcriptionJob := job\<rparr>;
               status = (case job of None \<Rightarrow> None | Some j \<Rightarrow> TranscriptionJobStatus j)
           in if status = Some ''COMPLETED'' then (st1\<lparr>jobComplete := True\<rparr>, None)
              else if status = Some ''FAILED'' then
                (st1, Some (Error (''Transcription job failed: ''
                                   @ js_string (case job of None \<Rightarrow> None
                                                | Some j \<Rightarrow> FailureReason j))))
              else (st1, None)))"

text \<open>One iteration: the counter is incremented, the status is queried, and whatever the
  \<^verbatim>\<open>try\<close> body throws is caught and logged.\<close>

definition poll_iteration :: "services \<Rightarrow> poll_state \<Rightarrow> poll_state" where
  "poll_iteration sv st =
     (let st0 = st\<lparr>pollCount := Suc (pollCount st)\<rparr>;
          (st1, pollError) = poll_try (getTranscriptionJob sv (pollCount st)) st0
      in case pollError of
           None \<Rightarrow> st1
         | Some e \<Rightarrow> st1\<lparr>logged := logged st1 @ [e]\<rparr>)"

function poll_loop :: "services \<Rightarrow> poll_state \<Rightarrow> poll_state" where
  "poll_loop sv st =
     (if \<not> jobComplete st \<and> pollCount st < maxPolls then poll_loop sv (poll_iteration sv st)
      else st)"
  by pat_completeness auto
termination
  by (relation "measure (\<lambda>(sv, st). maxPolls - pollCount st)")
     (auto simp: poll_iteration_def poll_try_def Let_def split: sum.splits option.splits)

declare poll_loop.simps [simp del]

subsection \<open>Retrieval\<close>

definition maxEndTime :: "item list \<Rightarrow> number" where
  "maxEndTime its =
     foldl (\<lambda>m item. if truthy (end_time item) \<and> number_gt (parseFloat (js_string (end_time item))) m
                     then parseFloat (js_string (end_time item)) else m)
       (Num 0) its"

definition duration_string :: "number \<Rightarrow> string" where
  "duration_string m =
     (let minutes = Math_floor (number_div m 60);
          seconds = Math_floor (number_rem m 60)
      in number_toString minutes @ '':'' @ padStart 2 CHR ''0'' (number_toString seconds))"

text \<open>The body of the \<^verbatim>\<open>try\<close> around the retrieval. Converting the JSON value \<^verbatim>\<open>null\<close>
  throws a \<^verbatim>\<open>TypeError\<close> on its first property access.\<close>

definition fetch_transcript :: "services \<Rightarrow> string \<Rightarrow> thrown + TranscribeResult" where
  "fetch_transcript sv transcriptUri =
     (case url_pathname sv transcriptUri of
        Inl e \<Rightarrow> Inl e
      | Inr pathname \<Rightarrow>
          (let pathParts = split CHR ''/'' pathname;
               transcriptKey = join CHR ''/'' (drop 2 pathParts)
           in case s3_getObject sv transcriptKey of
                Inl e \<Rightarrow> Inl e
              | Inr body \<Rightarrow>
                  (let transcriptContent = (case body of None \<Rightarrow> [] | Some b \<Rightarrow> b)
                   in case JSON_parse sv transcriptContent of
                        Inl e \<Rightarrow> Inl e
                      | Inr None \<Rightarrow>
                          Inl (Error ''Cannot read properties of null (reading 'results')'')
                      | Inr (Some transcriptData) \<Rightarrow>
                          (case convertTranscriptToSrt transcriptData of
                             Inl e \<Rightarrow> Inl e
                           | Inr text \<Rightarrow>
                               (let m = (case results transcriptData of
                                           None \<Rightarrow> Num 0
                                         | Some res \<Rightarrow>
                                             (case items res of
                                                None \<Rightarrow> Num 0
                                              | Some its \<Rightarrow> maxEndTime its))
                                in Inr \<lparr>srtContent = text, duration = duration_string m,
                                        rawTranscriptData = Some transcriptData\<rparr>)))))"

definition retrieve :: "services \<Rightarrow> string \<Rightarrow> thrown + TranscribeResult" where
  "retrieve sv transcriptUri =
     (case fetch_transcript sv transcriptUri of
        Inr r \<Rightarrow> Inr r
      | Inl fetchError \<Rightarrow>
          Inl (Error (''Failed to fetch transcript data: ''
                      @ (case fetchError of Error msg \<Rightarrow> msg | NonError str \<Rightarrow> str))))"

subsection \<open>The entry point\<close>

text \<open>The body of the outer \<^verbatim>\<open>try\<close> of \<^verbatim>\<open>transcribeAudio\<close>.\<close>

definition pipeline :: "services \<Rightarrow> File \<Rightarrow> string \<Rightarrow> thrown + TranscribeResult" where
  "pipeline sv file language =
     (let fileKey = ''transcription-inputs/'' @ decimal (now_upload sv) @ ''-'' @ file_name file
      in case outcome (retryOperation_default (s3_upload sv)) of
           Inl lastError \<Rightarrow>
             Inl (case lastError of None \<Rightarrow> NonError ''undefined'' | Some e \<Rightarrow> e)
         | Inr _ \<Rightarrow>
             (case startTranscriptionJob sv (transcriptionParams sv file language fileKey) of
                Inl e \<Rightarrow> Inl e
              | Inr _ \<Rightarrow>
                  (let st = poll_loop sv poll_start
                   in if \<not> jobComplete st
                      then Inl (Error ''Transcription job timed out after 5 minutes'')
                      else
                        (case (case transcriptionJob st of
                                 None \<Rightarrow> None
                               | Some j \<Rightarrow> TranscriptFileUri j) of
                           None \<Rightarrow> Inl (Error ''Could not retrieve transcription results'')
                         | Some uri \<Rightarrow>
                             if uri = []
                             then Inl (Error ''Could not retrieve transcription results'')
                             else retrieve sv uri))))"

text \<open>
  The handler of the outer \<^verbatim>\<open>try\<close> logs, among the file details,
  \<^verbatim>\<open>new Date(file.lastModified).toISOString()\<close>, which throws a \<^verbatim>\<open>RangeError\<close> when the time
  value is not within 8.64e15 ms of the epoch; then it returns the simulated result.
\<close>

definition toISOString_throws :: "int \<Rightarrow> bool" where
  "toISOString_throws t = (8640000000000000 < \<bar>t\<bar>)"

definition transcribeAudio :: "services \<Rightarrow> File \<Rightarrow> string \<Rightarrow> thrown + TranscribeResult" where
  "transcribeAudio sv file language =
     (case pipeline sv file language of
        Inr r \<Rightarrow> Inr r
      | Inl error \<Rightarrow>
          if toISOString_throws (lastModified file) then Inl (Error ''Invalid time value'')
          else Inr (simulateTranscription file))"

section \<open>Example runs\<close>

text \<open>Concrete inputs at which the definitions above are evaluated below.\<close>

definition sample_file :: "int \<Rightarrow> File" where
  "sample_file t =
     \<lparr>file_name = ''talk.mp3'', file_type = ''audio/mpeg'', file_size = 1024, lastModified = t\<rparr>"

definition word :: "string \<Rightarrow> string \<Rightarrow> string \<Rightarrow> item" where
  "word c s e =
     \<lparr>item_type = ''pronunciation'', start_time = Some s, end_time = Some e,
      alternatives = [\<lparr>content = c\<rparr>]\<rparr>"

definition mark :: "string \<Rightarrow> item" where
  "mark c =
     \<lparr>item_type = ''punctuation'', start_time = None, end_time = None,
      alternatives = [\<lparr>content = c\<rparr>]\<rparr>"

definition transcript_of :: "string \<Rightarrow> item list \<Rightarrow> transcript_data" where
  "transcript_of fullText its =
     \<lparr>results = Some \<lparr>transcripts = Some [\<lparr>transcript = fullText\<rparr>], items = Some its\<rparr>\<rparr>"

definition sample_transcript :: transcript_data where
  "sample_transcript = transcript_of ''Hello.'' [word ''Hello'' ''0.0'' ''0.5'', mark ''.'']"

text \<open>
  The text of the transcript document \<open>sample_transcript\<close>. The sample services store this
  one object, under the key \<^verbatim>\<open>job-1700000000500.json\<close> of the bucket, and resolve its
  address only; every other key has no object, and every other text fails to parse.
\<close>

definition sample_body :: string where
  \<open>sample_body =
     ''{"results":{"transcripts":[{"transcript":"Hello."}],"items":[''
     @ ''{"type":"pronunciation","start_time":"0.0","end_time":"0.5",''
     @ ''"alternatives":[{"content":"Hello"}]},''
     @ ''{"type":"punctuation","alternatives":[{"content":"."}]}]}}''\<close>

definition sample_services ::
  "(nat \<Rightarrow> thrown + unit) \<Rightarrow> (nat \<Rightarrow> thrown + transcription_job option) \<Rightarrow> services" where
  "sample_services upload poll =
     \<lparr>bucket = ''media'', now_upload = 1700000000000, now_job = 1700000000500,
      s3_upload = upload,
      startTranscriptionJob = (\<lambda>p. Inr ()),
      getTranscriptionJob = poll,
      url_pathname =
        (\<lambda>u. if u = ''https://s3.amazonaws.com/media/job-1700000000500.json''
             then Inr ''/media/job-1700000000500.json''
             else Inl (Error ''Invalid URL'')),
      s3_getObject =
        (\<lambda>k. if k = ''job-1700000000500.json'' then Inr (Some sample_body)
             else Inl (Error ''The specified key does not exist.'')),
      JSON_parse =
        (\<lambda>s. if s = sample_body then Inr (Some sample_transcript)
             else Inl (Error ''Unexpected end of JSON input''))\<rparr>"

definition upload_ok :: "nat \<Rightarrow> thrown + unit" where
  "upload_ok n = Inr ()"

definition upload_fails :: "nat \<Rightarrow> thrown + unit" where
  "upload_fails n = Inl (Error ''NetworkingError'')"

definition job_failed :: "nat \<Rightarrow> thrown + transcription_job option" where
  "job_failed n =
     Inr (Some \<lparr>TranscriptionJobStatus = Some ''FAILED'',
                FailureReason = Some ''Unsupported audio'', TranscriptFileUri = None\<rparr>)"

definition job_completed :: "nat \<Rightarrow> thrown + transcription_job option" where
  "job_completed n =
     Inr (Some \<lparr>TranscriptionJobStatus = Some ''COMPLETED'', FailureReason = None,
                TranscriptFileUri = Some ''https://s3.amazonaws.com/media/job-1700000000500.json''\<rparr>)"

definition two_sentences :: "item list" where
  "two_sentences =
     [word ''Hello'' ''0.0'' ''0.5'', mark '','', word ''world'' ''0.75'' ''1.25'', mark ''!'',
      word ''Bye'' ''2'' ''2.5'']"

definition blank_items :: "item list" where
  "blank_items = [word [] ''1.0'' ''2.0'', mark [], word ''b'' ''3.0'' ''4.0'', mark ''.'']"

section \<open>Properties of the retry wrapper\<close>

lemma retry_loop_calls_le:
  "int (calls (retry_loop operation m d a le n ws)) \<le> int n + max 0 (m + 1 - int a)"
proof (induction operation m d a le n ws rule: retry_loop.induct)
  case (1 operation m d a le n ws)
  show ?case
  proof (cases "int a \<le> m")
    case False
    then show ?thesis by (simp add: retry_loop.simps)
  next
    case True
    show ?thesis
    proof (cases "operation n")
      case (Inr v)
      with True show ?thesis by (simp add: retry_loop.simps)
    next
      case (Inl e)
      with True "1.IH"[OF True Inl] show ?thesis
        by (subst retry_loop.simps) (simp split: if_splits)
    qed
  qed
qed

lemma retry_loop_success:
  "\<forall>j<k. isl (operation (n + j)) \<Longrightarrow> operation (n + k) = Inr v \<Longrightarrow> int (a + k) \<le> m \<Longrightarrow>
   retry_loop operation m d a le n ws =
     \<lparr>outcome = Inr v, calls = Suc (n + k), waits = ws @ map (\<lambda>i. d * int i) [a..<a + k]\<rparr>"
proof (induction k arbitrary: a le n ws)
  case 0
  then show ?case by (subst retry_loop.simps) simp
next
  case (Suc k)
  from Suc.prems(1) have "isl (operation (n + 0))" by blast
  then obtain e where e: "operation n = Inl e" by (cases "operation n") auto
  have rest: "\<forall>j<k. isl (operation (Suc n + j))"
  proof (intro allI impI)
    fix j assume "j < k"
    then have "Suc j < Suc k" by simp
    with Suc.prems(1) have "isl (operation (n + Suc j))" by blast
    then show "isl (operation (Suc n + j))" by simp
  qed
  have ok: "operation (Suc n + k) = Inr v" using Suc.prems(2) by simp
  have bound: "int (Suc a + k) \<le> m" using Suc.prems(3) by simp
  have lt: "int a < m" using Suc.prems(3) by simp
  have "retry_loop operation m d a le n ws =
        retry_loop operation m d (Suc a) (Some e) (Suc n) (ws @ [d * int a])"
    using e lt by (subst retry_loop.simps) simp
  also have "\<dots> = \<lparr>outcome = Inr v, calls = Suc (Suc n + k),
       waits = (ws @ [d * int a]) @ map (\<lambda>i. d * int i) [Suc a..<Suc a + k]\<rparr>"
    by (rule Suc.IH[OF rest ok bound])
  finally have eq: "retry_loop operation m d a le n ws =
      \<lparr>outcome = Inr v, calls = Suc (Suc n + k),
       waits = (ws @ [d * int a]) @ map (\<lambda>i. d * int i) [Suc a..<Suc a + k]\<rparr>" .
  have "[a..<a + Suc k] = a # [Suc a..<Suc a + k]" by (simp add: upt_conv_Cons)
  with eq show ?case by simp
qed

lemma retry_loop_exhaust:
  "\<forall>j<k. isl (operation (n + j)) \<Longrightarrow> operation (n + k) = Inl e \<Longrightarrow> int (a + k) = m \<Longrightarrow>
   retry_loop operation m d a le n ws =
     \<lparr>outcome = Inl (Some e), calls = Suc (n + k),
      waits = ws @ map (\<lambda>i. d * int i) [a..<a + k]\<rparr>"
proof (induction k arbitrary: a le n ws)
  case 0
  have stop: "\<not> int (Suc a) \<le> m" using 0(3) by simp
  have "retry_loop operation m d a le n ws =
        retry_loop operation m d (Suc a) (Some e) (Suc n) ws"
    using 0 by (subst retry_loop.simps) simp
  also have "\<dots> = \<lparr>outcome = Inl (Some e), calls = Suc n, waits = ws\<rparr>"
    using stop by (subst retry_loop.simps) simp
  finally show ?case by simp
next
  case (Suc k)
  from Suc.prems(1) have "isl (operation (n + 0))" by blast
  then obtain e0 where e0: "operation n = Inl e0" by (cases "operation n") auto
  have rest: "\<forall>j<k. isl (operation (Suc n + j))"
  proof (intro allI impI)
    fix j assume "j < k"
    then have "Suc j < Suc k" by simp
    with Suc.prems(1) have "isl (operation (n + Suc j))" by blast
    then show "isl (operation (Suc n + j))" by simp
  qed
  have final: "operation (Suc n + k) = Inl e" using Suc.prems(2) by simp
  have bound: "int (Suc a + k) = m" using Suc.prems(3) by simp
  have lt: "int a < m" using Suc.prems(3) by simp
  have "retry_loop operation m d a le n ws =
        retry_loop operation m d (Suc a) (Some e0) (Suc n) (ws @ [d * int a])"
    using e0 lt by (subst retry_loop.simps) simp
  also have "\<dots> = \<lparr>outcome = Inl (Some e), calls = Suc (Suc n + k),
       waits = (ws @ [d * int a]) @ map (\<lambda>i. d * int i) [Suc a..<Suc a + k]\<rparr>"
    by (rule Suc.IH[OF rest final bound])
  finally have eq: "retry_loop operation m d a le n ws =
      \<lparr>outcome = Inl (Some e), calls = Suc (Suc n + k),
       waits = (ws @ [d * int a]) @ map (\<lambda>i. d * int i) [Suc a..<Suc a + k]\<rparr>" .
  have "[a..<a + Suc k] = a # [Suc a..<Suc a + k]" by (simp add: upt_conv_Cons)
  with eq show ?case by simp
qed

text \<open>
  Claim C3. The retry wrapper invokes the operation at most \<open>maxRetries\<close> times. When the
  invocations before number \<open>k\<close> fail and invocation \<open>k\<close> (still within the budget)
  succeeds, its value is returned after exactly \<open>k + 1\<close> invocations. When every one of
  \<open>maxRetries \<ge> 1\<close> invocations fails, the error of the last invocation is thrown after
  exactly \<open>maxRetries\<close> invocations. In both cases the wait after failed attempt \<open>i\<close> is
  \<open>delay * i\<close> milliseconds (linear in \<open>i\<close>), and there is no wait after the last attempt.
\<close>

theorem retryOperation_contract:
  "int (calls (retryOperation operation maxRetries delay)) \<le> max 0 maxRetries
   \<and> ((\<forall>j<k. isl (operation j)) \<and> operation k = Inr v \<and> int k < maxRetries \<longrightarrow>
        retryOperation operation maxRetries delay =
          \<lparr>outcome = Inr v, calls = Suc k, waits = map (\<lambda>i. delay * int i) [1..<Suc k]\<rparr>)
   \<and> ((\<forall>j<k. isl (operation j)) \<and> operation k = Inl e \<and> int (Suc k) = maxRetries \<longrightarrow>
        retryOperation operation maxRetries delay =
          \<lparr>outcome = Inl (Some e), calls = Suc k,
           waits = map (\<lambda>i. delay * int i) [1..<Suc k]\<rparr>)"
proof (intro conjI impI)
  show "int (calls (retryOperation operation maxRetries delay)) \<le> max 0 maxRetries"
    using retry_loop_calls_le[of operation maxRetries delay 1 None 0 "[]"]
    by (simp add: retryOperation_def)
next
  assume h: "(\<forall>j<k. isl (operation j)) \<and> operation k = Inr v \<and> int k < maxRetries"
  then have "\<forall>j<k. isl (operation (0 + j))" "operation (0 + k) = Inr v" "int (1 + k) \<le> maxRetries"
    by simp_all
  from retry_loop_success[OF this, of delay None "[]"]
  show "retryOperation operation maxRetries delay =
          \<lparr>outcome = Inr v, calls = Suc k, waits = map (\<lambda>i. delay * int i) [1..<Suc k]\<rparr>"
    by (simp add: retryOperation_def)
next
  assume h: "(\<forall>j<k. isl (operation j)) \<and> operation k = Inl e \<and> int (Suc k) = maxRetries"
  then have "\<forall>j<k. isl (operation (0 + j))" "operation (0 + k) = Inl e" "int (1 + k) = maxRetries"
    by simp_all
  from retry_loop_exhaust[OF this, of delay None "[]"]
  show "retryOperation operation maxRetries delay =
          \<lparr>outcome = Inl (Some e), calls = Suc k,
           waits = map (\<lambda>i. delay * int i) [1..<Suc k]\<rparr>"
    by (simp add: retryOperation_def)
qed

text \<open>
  With the default arguments: an operation that fails twice and then succeeds is invoked
  three times, with waits of 1000 and 2000 ms; one that always fails is invoked three times
  and its third error is thrown.
\<close>

theorem retryOperation_contract_witness:
  "retryOperation_default (\<lambda>n. if n < 2 then Inl n else Inr (7::nat)) =
     \<lparr>outcome = Inr 7, calls = 3, waits = [1000, 2000]\<rparr>
   \<and> retryOperation_default (\<lambda>n. (Inl n :: nat + nat)) =
     \<lparr>outcome = Inl (Some 2), calls = 3, waits = [1000, 2000]\<rparr>"
proof
  let ?op = "\<lambda>n::nat. if n < 2 then (Inl n :: nat + nat) else Inr (7::nat)"
  have h: "(\<forall>j<2. isl (?op j)) \<and> ?op 2 = Inr 7 \<and> int 2 < 3" by simp
  have u: "map (\<lambda>i. 1000 * int i) [1..<Suc 2] = [1000, 2000]" by code_simp
  from retryOperation_contract[of ?op 3 1000 2 7] h
  have "retryOperation ?op 3 1000 =
          \<lparr>outcome = Inr 7, calls = Suc 2, waits = map (\<lambda>i. 1000 * int i) [1..<Suc 2]\<rparr>"
    by blast
  then show "retryOperation_default ?op = \<lparr>outcome = Inr 7, calls = 3, waits = [1000, 2000]\<rparr>"
    unfolding u by (simp add: retryOperation_default_def)
next
  let ?op = "\<lambda>n::nat. (Inl n :: nat + nat)"
  have h: "(\<forall>j<2. isl (?op j)) \<and> ?op 2 = Inl 2 \<and> int (Suc 2) = 3" by simp
  have u: "map (\<lambda>i. 1000 * int i) [1..<Suc 2] = [1000, 2000]" by code_simp
  from retryOperation_contract[of ?op 3 1000 2 _ 2] h
  have "retryOperation ?op 3 1000 =
          \<lparr>outcome = Inl (Some 2), calls = Suc 2, waits = map (\<lambda>i. 1000 * int i) [1..<Suc 2]\<rparr>"
    by blast
  then show "retryOperation_default ?op =
      \<lparr>outcome = Inl (Some 2), calls = 3, waits = [1000, 2000]\<rparr>"
    unfolding u by (simp add: retryOperation_default_def)
qed

section \<open>Properties of the cache\<close>

text \<open>
  Claim C8. A lookup returns a result exactly when the storage holds an entry for the file
  hash whose age \<open>now - timestamp\<close> is strictly below 24 hours, and then it is that entry's
  result; the lookup leaves the storage as it is, also when the entry has expired. A store
  replaces whatever entry the hash had by the new result, stamped with the current time,
  and touches no other hash. Hence a lookup less than 24 hours after the store returns the
  stored result, and a lookup 24 hours and 1 ms after it returns nothing.
\<close>

theorem cache_get_put:
  "(fst (getCachedTranscription now storage fileHash) = Some r \<longleftrightarrow>
      (\<exists>entry. parse_cache storage fileHash = Some entry \<and> result entry = r
               \<and> now - timestamp entry < 86400000))
   \<and> snd (getCachedTranscription now storage fileHash) = storage
   \<and> parse_cache (cacheTranscriptionResult now storage fileHash r) fileHash =
        Some \<lparr>result = r, timestamp = now\<rparr>
   \<and> (other \<noteq> fileHash \<longrightarrow>
        parse_cache (cacheTranscriptionResult now storage fileHash r) other =
        parse_cache storage other)
   \<and> (later - now < 86400000 \<longrightarrow>
        fst (getCachedTranscription later (cacheTranscriptionResult now storage fileHash r)
               fileHash) = Some r)
   \<and> fst (getCachedTranscription (now + 86400000 + 1)
            (cacheTranscriptionResult now storage fileHash r) fileHash) = None"
  by (auto simp: getCachedTranscription_def cacheTranscriptionResult_def parse_cache_def Let_def
           split: option.splits)

theorem cache_get_put_witness:
  "fst (getCachedTranscription 86400999
          (cacheTranscriptionResult 1000 None ''ab12''
             \<lparr>srtContent = ''x'', duration = ''0:01'', rawTranscriptData = None\<rparr>) ''ab12'')
     = Some \<lparr>srtContent = ''x'', duration = ''0:01'', rawTranscriptData = None\<rparr>
   \<and> parse_cache (cacheTranscriptionResult 1000 None ''ab12''
        \<lparr>srtContent = ''x'', duration = ''0:01'', rawTranscriptData = None\<rparr>) ''cd34''
     = parse_cache None ''cd34''"
proof -
  let ?r = "\<lparr>srtContent = ''x'', duration = ''0:01'', rawTranscriptData = None\<rparr>"
  have h1: "(86400999::int) - 1000 < 86400000" by simp
  have h2: "''cd34'' \<noteq> ''ab12''" by simp
  from cache_get_put[of 1000 None "''ab12''" ?r "''cd34''" 86400999] h1 h2
  show ?thesis by blast
qed

section \<open>Properties of the format converter\<close>

lemma srt_emit: "srt (emit st) = srt st @ srt_block (index st) (block_of st)"
  by (simp add: emit_def srt_block_def block_of_def Let_def)

lemma index_emit: "index (emit st) = Suc (index st)"
  by (simp add: emit_def Let_def)

lemma walk_emissions:
  "walk its st = Inr st' \<Longrightarrow>
   srt st' = srt st @ render_blocks (index st) (map (block_of \<circ> snd) (emissions its st seg))"
proof (induction its arbitrary: st seg)
  case Nil
  then show ?case by simp
next
  case (Cons item rest)
  from Cons.prems obtain st1 where a: "absorb item st = Inr st1"
    by (cases "absorb item st") auto
  have s1: "srt st1 = srt st" "index st1 = index st"
    using a by (auto simp: absorb_def split: if_splits list.splits)
  show ?case
  proof (cases "should_emit (rest = []) item st1")
    case True
    with Cons.prems a have "walk rest (emit st1) = Inr st'" by simp
    from Cons.IH[OF this, of "[]"] True a s1 show ?thesis
      by (simp add: srt_emit index_emit)
  next
    case False
    with Cons.prems a have "walk rest st1 = Inr st'" by simp
    from Cons.IH[OF this, of "seg @ [item]"] False a s1 show ?thesis
      by simp
  qed
qed

lemma render_blocks_enum:
  "render_blocks i bs = concat (map (\<lambda>(j, b). srt_block j b) (zip [i..<i + length bs] bs))"
proof (induction bs arbitrary: i)
  case Nil
  then show ?case by simp
next
  case (Cons b bs)
  have "i < i + length (b # bs)" by simp
  then have "[i..<i + length (b # bs)] = i # [Suc i..<i + length (b # bs)]"
    by (rule upt_conv_Cons)
  then have "[i..<i + length (b # bs)] = i # [Suc i..<Suc i + length bs]" by simp
  with Cons.IH[of "Suc i"] show ?case by (simp del: upt_Suc)
qed

lemma srt_block_nonempty: "srt_block i b \<noteq> []"
  by (simp add: srt_block_def)

lemma render_blocks_empty: "render_blocks i bs = [] \<longleftrightarrow> bs = []"
  by (cases bs) (simp_all add: srt_block_nonempty)

lemma decimal_1: "decimal 1 = ''1''"
  by code_simp

lemma fixed_window_block:
  "fixed_window t = srt_block 1 \<lparr>block_start = ''00:00:00,000'', block_end = ''00:05:00,000'', block_text = t\<rparr>"
  by (simp add: fixed_window_def srt_block_def decimal_1)

lemma convert_blocks:
  assumes "convertTranscriptToSrt td = Inr s"
  shows "s = render_blocks 1 (converted_blocks td)"
proof (cases "results td")
  case None
  with assms show ?thesis by (simp add: convertTranscriptToSrt_def converted_blocks_def)
next
  case (Some res)
  note res = this
  show ?thesis
  proof (cases "transcripts res")
    case None
    with assms res show ?thesis by (simp add: convertTranscriptToSrt_def converted_blocks_def)
  next
    case (Some ts)
    let ?its = "case items res of None \<Rightarrow> [] | Some its \<Rightarrow> its"
    let ?walked = "map (block_of \<circ> snd) (emissions ?its initial_walk_state [])"
    have cb: "converted_blocks td =
        (if ?walked = [] \<and> ts \<noteq> []
         then [\<lparr>block_start = ''00:00:00,000'', block_end = ''00:05:00,000'',
                block_text = transcript (hd ts)\<rparr>]
         else ?walked)"
      using res Some by (simp add: converted_blocks_def Let_def)
    show ?thesis
    proof (cases "ts \<noteq> [] \<and> (items res = None \<or> items res = Some [])")
      case True
      then have "?its = []" by auto
      then have "?walked = []" by simp
      with cb True have "converted_blocks td = [\<lparr>block_start = ''00:00:00,000'', block_end = ''00:05:00,000'',
                block_text = transcript (hd ts)\<rparr>]" by simp
      moreover from assms res Some True have "s = fixed_window (transcript (hd ts))"
        by (simp add: convertTranscriptToSrt_def)
      ultimately show ?thesis by (simp add: fixed_window_block)
    next
      case False
      with assms res Some obtain st where w: "walk ?its initial_walk_state = Inr st"
        and s: "s = (if srt st = [] \<and> ts \<noteq> [] then fixed_window (transcript (hd ts)) else srt st)"
        by (auto simp: convertTranscriptToSrt_def split: sum.splits if_splits)
      from walk_emissions[OF w, of "[]"]
      have r: "srt st = render_blocks 1 ?walked" by (simp add: initial_walk_state_def)
      then have e: "srt st = [] \<longleftrightarrow> ?walked = []" by (simp add: render_blocks_empty)
      show ?thesis
      proof (cases "?walked = [] \<and> ts \<noteq> []")
        case True
        with cb s e show ?thesis by (simp add: fixed_window_block)
      next
        case False
        with cb s e r show ?thesis by auto
      qed
    qed
  qed
qed

lemma truthy_empty [simp]: "\<not> truthy (Some [])"
  by (simp add: truthy_def)

lemma pronunciations_snoc:
  "pronunciations (seg @ [item]) =
     (if item_type item = ''pronunciation'' then pronunciations seg @ [item] else pronunciations seg)"
  by (simp add: pronunciations_def)

lemma absorb_times:
  assumes "absorb item st = Inr st1"
      and "truthy (startTime st) \<longrightarrow> times_from seg st"
  shows "truthy (startTime st1) \<longrightarrow> times_from (seg @ [item]) st1"
proof (cases "item_type item = ''pronunciation''")
  case True
  from assms(1) True obtain a as where "alternatives item = a # as"
    and st1: "st1 = st\<lparr>startTime := (if currentLine st = [] then start_time item else startTime st),
                     currentLine := currentLine st @ content a @ '' '',
                     endTime := end_time item\<rparr>"
    by (auto simp: absorb_def split: list.splits)
  show ?thesis
  proof
    assume t: "truthy (startTime st1)"
    show "times_from (seg @ [item]) st1"
    proof (cases "currentLine st = []")
      case True
      with st1 \<open>item_type item = ''pronunciation''\<close> show ?thesis
        by (simp add: times_from_def pronunciations_snoc)
    next
      case False
      with st1 t have "truthy (startTime st)" by simp
      with assms(2) have "times_from seg st" by simp
      with st1 False \<open>item_type item = ''pronunciation''\<close> show ?thesis
        by (auto simp: times_from_def pronunciations_snoc)
    qed
  qed
next
  case False
  with assms(1) have "startTime st1 = startTime st" "endTime st1 = endTime st"
    by (auto simp: absorb_def split: if_splits list.splits)
  with assms(2) False show ?thesis
    by (simp add: times_from_def pronunciations_snoc)
qed

lemma should_emit_truthy:
  "should_emit l item st \<Longrightarrow> truthy (startTime st) \<and> truthy (endTime st)"
  by (simp add: should_emit_def Let_def)

lemma startTime_emit: "startTime (emit st) = Some []"
  by (simp add: emit_def Let_def)

lemma currentLine_emit: "currentLine (emit st) = []"
  by (simp add: emit_def Let_def)

lemma emissions_times:
  assumes "truthy (startTime st) \<longrightarrow> times_from seg st"
      and "(seg', st') \<in> set (emissions its st seg)"
  shows "times_from seg' st' \<and> truthy (startTime st') \<and> truthy (endTime st')"
  using assms
proof (induction its arbitrary: st seg)
  case Nil
  then show ?case by simp
next
  case (Cons item rest)
  from Cons.prems(2) obtain st1 where a: "absorb item st = Inr st1"
    by (cases "absorb item st") auto
  from absorb_times[OF a Cons.prems(1)]
  have inv1: "truthy (startTime st1) \<longrightarrow> times_from (seg @ [item]) st1" .
  show ?case
  proof (cases "should_emit (rest = []) item st1")
    case True
    with Cons.prems(2) a
    consider "(seg', st') = (seg @ [item], st1)" | "(seg', st') \<in> set (emissions rest (emit st1) [])"
      by auto
    then show ?thesis
    proof cases
      case 1
      with inv1 should_emit_truthy[OF True] show ?thesis by simp
    next
      case 2
      have "truthy (startTime (emit st1)) \<longrightarrow> times_from [] (emit st1)"
        by (simp add: startTime_emit)
      from Cons.IH[OF this 2] show ?thesis .
    qed
  next
    case False
    with Cons.prems(2) a have "(seg', st') \<in> set (emissions rest st1 (seg @ [item]))" by simp
    from Cons.IH[OF inv1 this] show ?thesis .
  qed
qed

lemma absorb_first:
  assumes "absorb item st = Inr st1"
      and "item_type item = ''punctuation'' \<longrightarrow>
             (case alternatives item of [] \<Rightarrow> True | a # _ \<Rightarrow> content a \<noteq> [])"
      and "first_start seg st"
  shows "first_start (seg @ [item]) st1"
proof (cases "item_type item = ''pronunciation''")
  case True
  from assms(1) True obtain a as where "alternatives item = a # as"
    and st1: "st1 = st\<lparr>startTime := (if currentLine st = [] then start_time item else startTime st),
                     currentLine := currentLine st @ content a @ '' '',
                     endTime := end_time item\<rparr>"
    by (auto simp: absorb_def split: list.splits)
  show ?thesis
  proof (cases "pronunciations seg = []")
    case True
    with assms(3) have "\<not> truthy (startTime st)" by (auto simp: first_start_def)
    with st1 True \<open>item_type item = ''pronunciation''\<close> show ?thesis
      by (auto simp: first_start_def pronunciations_snoc)
  next
    case False
    with assms(3) have "currentLine st \<noteq> []" by (simp add: first_start_def)
    with st1 False assms(3) \<open>item_type item = ''pronunciation''\<close> show ?thesis
      by (auto simp: first_start_def pronunciations_snoc)
  qed
next
  case False
  note np = this
  show ?thesis
  proof (cases "item_type item = ''punctuation''")
    case True
    with assms(1) np obtain a as where alt: "alternatives item = a # as"
      and st1: "st1 = st\<lparr>currentLine := trim (currentLine st) @ content a\<rparr>"
      by (auto simp: absorb_def split: list.splits)
    from assms(2) True alt have "content a \<noteq> []" by simp
    with st1 assms(3) np show ?thesis
      by (auto simp: first_start_def pronunciations_snoc)
  next
    case False
    with assms(1) np have "st1 = st" by (simp add: absorb_def)
    with assms(3) np show ?thesis by (simp add: first_start_def pronunciations_snoc)
  qed
qed

lemma emissions_first:
  assumes "marks_nonempty its"
      and "first_start seg st"
      and "(seg', st') \<in> set (emissions its st seg)"
  shows "startTime st' = start_time (hd (pronunciations seg'))"
  using assms
proof (induction its arbitrary: st seg)
  case Nil
  then show ?case by simp
next
  case (Cons item rest)
  from Cons.prems(3) obtain st1 where a: "absorb item st = Inr st1"
    by (cases "absorb item st") auto
  from Cons.prems(1) have h: "item_type item = ''punctuation'' \<longrightarrow>
             (case alternatives item of [] \<Rightarrow> True | a # _ \<Rightarrow> content a \<noteq> [])"
    and hr: "marks_nonempty rest"
    by (simp_all add: marks_nonempty_def)
  from absorb_first[OF a h Cons.prems(2)]
  have inv1: "first_start (seg @ [item]) st1" .
  show ?case
  proof (cases "should_emit (rest = []) item st1")
    case True
    with Cons.prems(3) a
    consider "(seg', st') = (seg @ [item], st1)" | "(seg', st') \<in> set (emissions rest (emit st1) [])"
      by auto
    then show ?thesis
    proof cases
      case 1
      with inv1 should_emit_truthy[OF True] show ?thesis by (simp add: first_start_def)
    next
      case 2
      have "first_start [] (emit st1)"
        by (simp add: first_start_def startTime_emit pronunciations_def)
      from Cons.IH[OF hr this 2] show ?thesis .
    qed
  next
    case False
    with Cons.prems(3) a have "(seg', st') \<in> set (emissions rest st1 (seg @ [item]))" by simp
    from Cons.IH[OF hr inv1 this] show ?thesis .
  qed
qed

lemma emissions_concat:
  "\<exists>rest. seg @ its = concat (map fst (emissions its st seg)) @ rest"
proof (induction its arbitrary: st seg)
  case Nil
  then show ?case by simp
next
  case (Cons item rest)
  show ?case
  proof (cases "absorb item st")
    case (Inl e)
    then show ?thesis by simp
  next
    case (Inr st1)
    show ?thesis
    proof (cases "should_emit (rest = []) item st1")
      case True
      from Cons.IH[of "[]" "emit st1"]
      have "\<exists>r. rest = concat (map fst (emissions rest (emit st1) [])) @ r" by simp
      with Inr True show ?thesis by simp
    next
      case False
      from Cons.IH[of "seg @ [item]" st1]
      have "\<exists>r. (seg @ [item]) @ rest = concat (map fst (emissions rest st1 (seg @ [item]))) @ r" .
      with Inr False show ?thesis by simp
    qed
  qed
qed

text \<open>
  Claim C5. Whenever the converter returns, the text it returns is the blocks it has emitted,
  each under its index line, and the index lines count 1, 2, 3, ... in the order of
  emission: the block at position \<open>i\<close> (from 0) is numbered \<open>i + 1\<close>.
\<close>

theorem subtitle_indices_dense:
  assumes "convertTranscriptToSrt td = Inr s"
  shows "s = concat (map (\<lambda>(i, b). srt_block i b)
                  (zip [1..<1 + length (converted_blocks td)] (converted_blocks td)))"
  using convert_blocks[OF assms] by (simp only: render_blocks_enum)

theorem subtitle_indices_dense_witness:
  "convertTranscriptToSrt (transcript_of ''Hello, world! Bye'' two_sentences) =
     Inr ''1\<newline>00:00:00,000 --> 00:00:01,250\<newline>Hello,world!\<newline>\<newline>2\<newline>00:00:02,000 --> 00:00:02,500\<newline>Bye\<newline>\<newline>''
   \<and> ''1\<newline>00:00:00,000 --> 00:00:01,250\<newline>Hello,world!\<newline>\<newline>2\<newline>00:00:02,000 --> 00:00:02,500\<newline>Bye\<newline>\<newline>'' =
       concat (map (\<lambda>(i, b). srt_block i b)
         (zip [1..<1 + length (converted_blocks (transcript_of ''Hello, world! Bye'' two_sentences))]
              (converted_blocks (transcript_of ''Hello, world! Bye'' two_sentences))))"
proof -
  have e: "convertTranscriptToSrt (transcript_of ''Hello, world! Bye'' two_sentences) =
     Inr ''1\<newline>00:00:00,000 --> 00:00:01,250\<newline>Hello,world!\<newline>\<newline>2\<newline>00:00:02,000 --> 00:00:02,500\<newline>Bye\<newline>\<newline>''"
    by code_simp
  from subtitle_indices_dense[OF e] e show ?thesis by blast
qed

text \<open>
  Claim C4. A transcript without \<open>results\<close> or without \<open>transcripts\<close> converts to the empty
  string. With a full-text transcript and no timed items, and likewise when the walk over
  the items returns without having emitted a block, the result is the single block
  number 1 from \<^verbatim>\<open>00:00:00,000\<close> to \<^verbatim>\<open>00:05:00,000\<close> with the full text. Without a
  full-text transcript and without items the result is the empty string.
\<close>

theorem fixed_window_fallback:
  "((results td = None \<or> (\<exists>r. results td = Some r \<and> transcripts r = None)) \<longrightarrow>
      convertTranscriptToSrt td = Inr [])
   \<and> (results td = Some res \<and> transcripts res = Some ts \<and> ts \<noteq> []
        \<and> (items res = None \<or> items res = Some []) \<longrightarrow>
      convertTranscriptToSrt td =
        Inr (''1\<newline>00:00:00,000 --> 00:05:00,000\<newline>'' @ transcript (hd ts) @ ''\<newline>\<newline>''))
   \<and> (results td = Some res \<and> transcripts res = Some ts \<and> ts \<noteq> [] \<and> items res = Some its
        \<and> walk its initial_walk_state = Inr st \<and> emissions its initial_walk_state [] = [] \<longrightarrow>
      convertTranscriptToSrt td =
        Inr (''1\<newline>00:00:00,000 --> 00:05:00,000\<newline>'' @ transcript (hd ts) @ ''\<newline>\<newline>''))
   \<and> (results td = Some res \<and> transcripts res = Some []
        \<and> (items res = None \<or> items res = Some []) \<longrightarrow>
      convertTranscriptToSrt td = Inr [])
   \<and> ''1\<newline>00:00:00,000 --> 00:05:00,000\<newline>'' @ fullText @ ''\<newline>\<newline>'' =
       render_blocks 1 [\<lparr>block_start = ''00:00:00,000'', block_end = ''00:05:00,000'',
                         block_text = fullText\<rparr>]"
proof (intro conjI impI)
  assume "results td = None \<or> (\<exists>r. results td = Some r \<and> transcripts r = None)"
  then show "convertTranscriptToSrt td = Inr []"
    by (auto simp: convertTranscriptToSrt_def)
next
  assume "results td = Some res \<and> transcripts res = Some ts \<and> ts \<noteq> []
        \<and> (items res = None \<or> items res = Some [])"
  then show "convertTranscriptToSrt td =
        Inr (''1\<newline>00:00:00,000 --> 00:05:00,000\<newline>'' @ transcript (hd ts) @ ''\<newline>\<newline>'')"
    by (auto simp: convertTranscriptToSrt_def fixed_window_def)
next
  assume h: "results td = Some res \<and> transcripts res = Some ts \<and> ts \<noteq> [] \<and> items res = Some its
        \<and> walk its initial_walk_state = Inr st \<and> emissions its initial_walk_state [] = []"
  then have w: "walk its initial_walk_state = Inr st" by simp
  from walk_emissions[OF w, of "[]"] h have "srt st = []"
    by (simp add: initial_walk_state_def)
  with h show "convertTranscriptToSrt td =
        Inr (''1\<newline>00:00:00,000 --> 00:05:00,000\<newline>'' @ transcript (hd ts) @ ''\<newline>\<newline>'')"
    by (auto simp: convertTranscriptToSrt_def fixed_window_def)
next
  assume h: "results td = Some res \<and> transcripts res = Some []
        \<and> (items res = None \<or> items res = Some [])"
  then show "convertTranscriptToSrt td = Inr []"
    by (auto simp: convertTranscriptToSrt_def initial_walk_state_def)
next
  show "''1\<newline>00:00:00,000 --> 00:05:00,000\<newline>'' @ fullText @ ''\<newline>\<newline>'' =
       render_blocks 1 [\<lparr>block_start = ''00:00:00,000'', block_end = ''00:05:00,000'',
                         block_text = fullText\<rparr>]"
    using fixed_window_block[of fullText] by (simp add: fixed_window_def)
qed

theorem fixed_window_fallback_witness:
  "convertTranscriptToSrt \<lparr>results = None\<rparr> = Inr []
   \<and> convertTranscriptToSrt (transcript_of ''Hi there'' []) =
       Inr ''1\<newline>00:00:00,000 --> 00:05:00,000\<newline>Hi there\<newline>\<newline>''
   \<and> convertTranscriptToSrt (transcript_of ''Hi there'' [mark '','']) =
       Inr ''1\<newline>00:00:00,000 --> 00:05:00,000\<newline>Hi there\<newline>\<newline>''
   \<and> convertTranscriptToSrt \<lparr>results = Some \<lparr>transcripts = Some [], items = Some []\<rparr>\<rparr> = Inr []"
proof -
  let ?res = "\<lambda>its. \<lparr>transcripts = Some [\<lparr>transcript = ''Hi there''\<rparr>], items = Some its\<rparr>"
  let ?st = "\<lparr>srt = [], index = 1, currentLine = '','', startTime = Some [], endTime = Some []\<rparr>"
  have a: "results \<lparr>results = None\<rparr> = None \<or>
           (\<exists>r. results \<lparr>results = None\<rparr> = Some r \<and> transcripts r = None)"
    by simp
  have b: "results (transcript_of ''Hi there'' []) = Some (?res [])
           \<and> transcripts (?res []) = Some [\<lparr>transcript = ''Hi there''\<rparr>]
           \<and> [\<lparr>transcript = ''Hi there''\<rparr>] \<noteq> []
           \<and> (items (?res []) = None \<or> items (?res []) = Some [])"
    by (simp add: transcript_of_def)
  have w: "walk [mark '',''] initial_walk_state = Inr ?st"
    by code_simp
  have em: "emissions [mark '',''] initial_walk_state [] = []"
    by code_simp
  have c: "results (transcript_of ''Hi there'' [mark '','']) = Some (?res [mark '',''])
           \<and> transcripts (?res [mark '','']) = Some [\<lparr>transcript = ''Hi there''\<rparr>]
           \<and> [\<lparr>transcript = ''Hi there''\<rparr>] \<noteq> [] \<and> items (?res [mark '','']) = Some [mark '','']
           \<and> walk [mark '',''] initial_walk_state = Inr ?st
           \<and> emissions [mark '',''] initial_walk_state [] = []"
    using w em by (simp add: transcript_of_def)
  let ?empty = "\<lparr>transcripts = Some [], items = Some []\<rparr>"
  have d: "results \<lparr>results = Some ?empty\<rparr> = Some ?empty \<and> transcripts ?empty = Some []
           \<and> (items ?empty = None \<or> items ?empty = Some [])"
    by simp
  from fixed_window_fallback[of "\<lparr>results = None\<rparr>"] a
  have 1: "convertTranscriptToSrt \<lparr>results = None\<rparr> = Inr []" by blast
  from fixed_window_fallback[of "transcript_of ''Hi there'' []" "?res []" "[\<lparr>transcript = ''Hi there''\<rparr>]"] b
  have 2: "convertTranscriptToSrt (transcript_of ''Hi there'' []) =
       Inr ''1\<newline>00:00:00,000 --> 00:05:00,000\<newline>Hi there\<newline>\<newline>''"
    by simp
  from fixed_window_fallback[of "transcript_of ''Hi there'' [mark '','']" "?res [mark '','']"
         "[\<lparr>transcript = ''Hi there''\<rparr>]" "[mark '','']" ?st] c
  have 3: "convertTranscriptToSrt (transcript_of ''Hi there'' [mark '','']) =
       Inr ''1\<newline>00:00:00,000 --> 00:05:00,000\<newline>Hi there\<newline>\<newline>''"
    by simp
  from fixed_window_fallback[of "\<lparr>results = Some ?empty\<rparr>" ?empty] d
  have 4: "convertTranscriptToSrt \<lparr>results = Some ?empty\<rparr> = Inr []" by blast
  from 1 2 3 4 show ?thesis by blast
qed

text \<open>
  Claim C10, as amended. Let a block be emitted in state \<open>st\<close> after the items \<open>seg\<close>
  processed since the previous block (the segments are consecutive pieces of the item list,
  and the returned text is the rendering of these blocks). Then \<open>seg\<close> has a
  pronunciation item; the end timestamp of the block is the \<open>end_time\<close> of the last
  pronunciation item of \<open>seg\<close>, hence never one left from an earlier block; the start
  timestamp is the \<open>start_time\<close> of a pronunciation item of \<open>seg\<close>, and it is that of the
  first one when no punctuation item has an empty content.
\<close>

theorem emitted_block_times:
  assumes "(seg, st) \<in> set (emissions its initial_walk_state [])"
  shows "pronunciations seg \<noteq> []
       \<and> truthy (end_time (last (pronunciations seg)))
       \<and> block_end (block_of st) =
           formatSrtTime (parseFloat (js_string (end_time (last (pronunciations seg)))))
       \<and> (\<exists>p \<in> set (pronunciations seg). truthy (start_time p) \<and>
             block_start (block_of st) = formatSrtTime (parseFloat (js_string (start_time p))))
       \<and> (marks_nonempty its \<longrightarrow>
             block_start (block_of st) =
               formatSrtTime (parseFloat (js_string (start_time (hd (pronunciations seg))))))
       \<and> (\<forall>st'. walk its initial_walk_state = Inr st' \<longrightarrow>
             srt st' = render_blocks 1 (map (block_of \<circ> snd) (emissions its initial_walk_state [])))
       \<and> (\<exists>rest. its = concat (map fst (emissions its initial_walk_state [])) @ rest)"
proof -
  have i0: "truthy (startTime initial_walk_state) \<longrightarrow> times_from [] initial_walk_state"
    by (simp add: initial_walk_state_def)
  from emissions_times[OF i0 assms]
  have t: "times_from seg st" and ts: "truthy (startTime st)" and te: "truthy (endTime st)"
    by simp_all
  from t have p: "pronunciations seg \<noteq> []"
    and e: "endTime st = end_time (last (pronunciations seg))"
    and s: "\<exists>p \<in> set (pronunciations seg). startTime st = start_time p"
    by (simp_all add: times_from_def)
  have f0: "first_start [] initial_walk_state"
    by (simp add: first_start_def initial_walk_state_def pronunciations_def)
  have 1: "truthy (end_time (last (pronunciations seg)))" using e te by simp
  have 2: "block_end (block_of st) =
           formatSrtTime (parseFloat (js_string (end_time (last (pronunciations seg)))))"
    using e by (simp add: block_of_def)
  have 3: "\<exists>p \<in> set (pronunciations seg). truthy (start_time p) \<and>
             block_start (block_of st) = formatSrtTime (parseFloat (js_string (start_time p)))"
    using s ts by (auto simp: block_of_def)
  have 4: "marks_nonempty its \<longrightarrow>
             block_start (block_of st) =
               formatSrtTime (parseFloat (js_string (start_time (hd (pronunciations seg)))))"
    using emissions_first[OF _ f0 assms] by (simp add: block_of_def)
  have 5: "\<forall>st'. walk its initial_walk_state = Inr st' \<longrightarrow>
             srt st' = render_blocks 1 (map (block_of \<circ> snd) (emissions its initial_walk_state []))"
    using walk_emissions[of its initial_walk_state _ "[]"] by (simp add: initial_walk_state_def)
  have 6: "\<exists>rest. its = concat (map fst (emissions its initial_walk_state [])) @ rest"
    using emissions_concat[of "[]" its initial_walk_state] by simp
  from p 1 2 3 4 5 6 show ?thesis by blast
qed

theorem emitted_block_times_witness:
  "block_end (block_of (snd (last (emissions two_sentences initial_walk_state [])))) = ''00:00:02,500''
   \<and> block_start (block_of (snd (last (emissions two_sentences initial_walk_state [])))) = ''00:00:02,000''
   \<and> pronunciations (fst (last (emissions two_sentences initial_walk_state []))) = [word ''Bye'' ''2'' ''2.5'']"
proof -
  let ?em = "emissions two_sentences initial_walk_state []"
  have ne: "?em \<noteq> []" by code_simp
  then have m: "(fst (last ?em), snd (last ?em)) \<in> set ?em" by simp
  have h: "marks_nonempty two_sentences" by code_simp
  have p: "pronunciations (fst (last ?em)) = [word ''Bye'' ''2'' ''2.5'']" by code_simp
  have f: "formatSrtTime (parseFloat ''2.5'') = ''00:00:02,500''"
          "formatSrtTime (parseFloat ''2'') = ''00:00:02,000''" by code_simp+
  from emitted_block_times[OF m] h
  have "block_end (block_of (snd (last ?em))) =
           formatSrtTime (parseFloat (js_string (end_time (last (pronunciations (fst (last ?em)))))))"
    and "block_start (block_of (snd (last ?em))) =
           formatSrtTime (parseFloat (js_string (start_time (hd (pronunciations (fst (last ?em)))))))"
    by blast+
  with p f show ?thesis by (simp add: word_def js_string_def)
qed

text \<open>
  Claim C10 as it was stated fails: the start timestamp need not be that of the first
  pronunciation item since the previous block: a punctuation item
  with empty content after a blank word empties the line buffer, and the next word sets
  the start time again. Here the first word starts at 1.0 s and the block at 3.0 s.
\<close>

theorem start_time_not_first_counterexample:
  "convertTranscriptToSrt (transcript_of ''b.'' blank_items) =
     Inr ''1\<newline>00:00:03,000 --> 00:00:04,000\<newline>b.\<newline>\<newline>''
   \<and> map fst (emissions blank_items initial_walk_state []) = [blank_items]
   \<and> map (block_start \<circ> block_of \<circ> snd) (emissions blank_items initial_walk_state []) =
       [''00:00:03,000'']
   \<and> hd (pronunciations blank_items) = word [] ''1.0'' ''2.0''
   \<and> formatSrtTime (parseFloat (js_string (start_time (hd (pronunciations blank_items))))) =
       ''00:00:01,000''"
  by code_simp

section \<open>Properties of the number arithmetic and of the time format\<close>

lemma bitlen_bounds:
  "0 < n \<Longrightarrow> 0 < bitlen n \<and> 2 ^ nat (bitlen n - 1) \<le> n \<and> n < 2 ^ nat (bitlen n)"
proof (induction n rule: bitlen.induct)
  case (1 n)
  show ?case
  proof (cases "n div 2 = 0")
    case True
    with "1.prems" have n1: "n = 1" by presburger
    have "bitlen 1 = 1" by (simp add: bitlen.simps)
    with n1 show ?thesis by simp
  next
    case False
    with "1.prems" have pos: "0 < n div 2" by presburger
    from "1.prems" have ng: "\<not> n \<le> 0" by simp
    from "1.IH"[OF ng pos]
    have b: "0 < bitlen (n div 2)" and lo: "2 ^ nat (bitlen (n div 2) - 1) \<le> n div 2"
      and hi: "n div 2 < 2 ^ nat (bitlen (n div 2))" by simp_all
    have bl: "bitlen n = 1 + bitlen (n div 2)" using ng by (subst bitlen.simps) simp
    have e1: "nat (bitlen n - 1) = Suc (nat (bitlen (n div 2) - 1))" using bl b by simp
    have e2: "nat (bitlen n) = Suc (nat (bitlen (n div 2)))" using bl b by simp
    have "2 * 2 ^ nat (bitlen (n div 2) - 1) \<le> 2 * (n div 2)" using lo by simp
    also have "\<dots> \<le> n" by presburger
    finally have L: "2 ^ nat (bitlen n - 1) \<le> n" by (simp add: e1)
    have "n < 2 * (n div 2) + 2" by presburger
    also have "\<dots> \<le> 2 * 2 ^ nat (bitlen (n div 2))" using hi by simp
    finally have H: "n < 2 ^ nat (bitlen n)" by (simp add: e2)
    from bl b L H show ?thesis by simp
  qed
qed

lemma powi_nat: "0 \<le> k \<Longrightarrow> (2::rat) powi k = of_int (2 ^ nat k)"
  by (simp add: power_int_def)

lemma ilog2_bounds:
  assumes "0 < x"
  shows "2 powi (ilog2 x) \<le> x \<and> x < 2 powi (ilog2 x + 1)"
proof -
  obtain p q where pq: "quotient_of x = (p, q)" by (cases "quotient_of x")
  have q: "0 < q" by (rule quotient_of_denom_pos[OF pq])
  have x: "x = of_int p / of_int q" by (rule quotient_of_div[OF pq])
  have p: "0 < p" using assms q x by (simp add: zero_less_divide_iff)
  define bp where "bp = bitlen p"
  define bq where "bq = bitlen q"
  define d where "d = bp - bq"
  from bitlen_bounds[OF p] have bp: "0 < bp" "2 ^ nat (bp - 1) \<le> p" "p < 2 ^ nat bp"
    by (simp_all add: bp_def)
  from bitlen_bounds[OF q] have bq: "0 < bq" "2 ^ nat (bq - 1) \<le> q" "q < 2 ^ nat bq"
    by (simp_all add: bq_def)
  have P1: "(2::rat) powi (bp - 1) \<le> of_int p"
    using bp by (simp add: powi_nat del: of_int_power) 
  have P2: "of_int p < (2::rat) powi bp"
    using bp by (simp add: powi_nat del: of_int_power)
  have Q1: "(2::rat) powi (bq - 1) \<le> of_int q"
    using bq by (simp add: powi_nat del: of_int_power)
  have Q2: "of_int q < (2::rat) powi bq"
    using bq by (simp add: powi_nat del: of_int_power)
  have qpos: "(0::rat) < of_int q" using q by simp
  have pw: "\<And>k. (0::rat) < 2 powi k" by simp
  have up: "x < 2 powi (d + 1)"
  proof -
    have "x < 2 powi bp / of_int q" unfolding x using P2 qpos by (simp add: divide_strict_right_mono)
    also have "\<dots> \<le> 2 powi bp / 2 powi (bq - 1)"
      using Q1 pw[of "bq - 1"] pw[of bp] by (simp add: frac_le)
    also have "\<dots> = 2 powi (d + 1)"
      by (simp add: d_def power_int_diff[symmetric] algebra_simps)
    finally show ?thesis .
  qed
  have lo: "2 powi (d - 1) < x"
  proof -
    have "2 powi (d - 1) = 2 powi (bp - 1) / (2::rat) powi bq"
      by (simp add: d_def power_int_diff[symmetric] algebra_simps)
    also have "\<dots> < 2 powi (bp - 1) / of_int q"
      using Q2 qpos pw[of "bp - 1"] by (simp add: divide_strict_left_mono)
    also have "\<dots> \<le> x" unfolding x using P1 qpos by (simp add: divide_right_mono)
    finally show ?thesis .
  qed
  have il: "ilog2 x = (if 2 powi d \<le> x then d else d - 1)"
    by (simp add: ilog2_def pq Let_def d_def bp_def bq_def)
  show ?thesis
  proof (cases "2 powi d \<le> x")
    case True
    with il up show ?thesis by simp
  next
    case False
    with il lo show ?thesis by simp
  qed
qed

lemma round_half_even_bounds:
  "of_int (round_half_even x) \<le> x + 1 / 2 \<and> x - 1 / 2 \<le> of_int (round_half_even x)"
  unfolding round_half_even_def Let_def
  by (auto; linarith)

lemma round_half_even_nonneg: "0 \<le> x \<Longrightarrow> 0 \<le> round_half_even x"
  unfolding round_half_even_def Let_def
  by (auto; linarith)


lemma powi_mono: "a \<le> b \<Longrightarrow> (2::rat) powi a \<le> 2 powi b"
  by (simp add: power_int_increasing)

lemma ilog2_less:
  assumes "0 < x" "x < 2 powi b"
  shows "ilog2 x < b"
proof (rule ccontr)
  assume "\<not> ilog2 x < b"
  then have "b \<le> ilog2 x" by simp
  then have "(2::rat) powi b \<le> 2 powi (ilog2 x)" by (rule powi_mono)
  also have "\<dots> \<le> x" using ilog2_bounds[OF assms(1)] by simp
  finally show False using assms(2) by simp
qed

lemma to_double_finite:
  assumes "0 \<le> x" "x < 2 powi 1023"
  shows "\<exists>y. to_double x = Num y \<and> 0 \<le> y \<and> \<bar>y - x\<bar> \<le> rounding_bound x"
proof (cases "x = 0")
  case True
  then show ?thesis by (simp add: to_double_def rounding_bound_def)
next
  case False
  with assms have pos: "0 < x" by simp
  define e where "e = max (ilog2 x) (- 1022)"
  define u where "u = (2::rat) powi (e - 52)"
  define r where "r = round_half_even (x / u)"
  have upos: "0 < u" by (simp add: u_def)
  have e0: "ilog2 x < 1023" by (rule ilog2_less[OF pos assms(2)])
  then have e: "e < 1023" by (simp add: e_def)
  have td: "to_double x = Num (of_int r * u)"
    using False pos e by (simp add: to_double_def Let_def e_def[symmetric] u_def[symmetric] r_def[symmetric])
  have rn: "0 \<le> r" unfolding r_def using pos upos by (intro round_half_even_nonneg) simp
  have rb: "\<bar>of_int r - x / u\<bar> \<le> 1 / 2"
    using round_half_even_bounds[of "x / u"] unfolding r_def by linarith
  have "of_int r * u - x = (of_int r - x / u) * u"
    using upos by (simp add: field_simps)
  then have "\<bar>of_int r * u - x\<bar> = \<bar>of_int r - x / u\<bar> * u"
    using upos by (simp add: abs_mult)
  also have "\<dots> \<le> 1 / 2 * u" using rb upos by (intro mult_right_mono) simp_all
  also have "\<dots> = 2 powi (e - 53)"
    by (simp add: u_def power_int_diff)
  finally have err: "\<bar>of_int r * u - x\<bar> \<le> 2 powi (e - 53)" .
  have "(2::rat) powi (e - 53) \<le> rounding_bound x"
  proof (cases "- 1022 \<le> ilog2 x")
    case True
    then have "e = ilog2 x" by (simp add: e_def)
    then have "(2::rat) powi (e - 53) = 2 powi (ilog2 x) / 2 ^ 53"
      by (simp add: power_int_diff)
    also have "\<dots> \<le> x / 2 ^ 53" using ilog2_bounds[OF pos] by (simp add: divide_right_mono)
    finally show ?thesis using pos by (simp add: rounding_bound_def)
  next
    case False
    then have "e = - 1022" by (simp add: e_def)
    then show ?thesis by (simp add: rounding_bound_def)
  qed
  with err have "\<bar>of_int r * u - x\<bar> \<le> rounding_bound x" by simp
  moreover have "0 \<le> of_int r * u" using rn upos by simp
  ultimately show ?thesis using td by simp
qed

lemma decimal_0: "decimal 0 = ''0''"
  by code_simp

lemma number_toString_int:
  assumes "0 \<le> n" "n < 2 ^ 53"
  shows "number_toString (Num (of_int n)) = decimal n"
proof (cases "n = 0")
  case True
  then show ?thesis by (simp add: number_toString_def decimal_0)
next
  case False
  with assms have "(0::rat) < of_int n" by simp
  moreover have "(of_int n :: rat) < 2 ^ 53" using assms(2) by (metis of_int_less_iff of_int_numeral of_int_power)
  ultimately show ?thesis by (simp add: number_toString_def positive_toString_def)
qed

lemma tiny: "(2::rat) powi (- 1075) \<le> 1"
  using powi_mono[of "- 1075" 0] by simp

lemma rounding_bound_le: "0 \<le> x \<Longrightarrow> rounding_bound x \<le> x + 1"
proof -
  assume x: "0 \<le> x"
  have "x / 2 ^ 53 \<le> x" using x by (simp add: divide_le_eq)
  with x tiny show ?thesis by (simp add: rounding_bound_def)
qed

lemma floor_divide_int:
  fixes s :: rat
  assumes "0 < n"
  shows "\<lfloor>s / of_int n\<rfloor> = \<lfloor>s\<rfloor> div n"
proof (rule floor_unique)
  have n: "(0::rat) < of_int n" using assms by simp
  have "of_int (\<lfloor>s\<rfloor> div n) * (of_int n :: rat) = of_int (\<lfloor>s\<rfloor> div n * n)" by simp
  also have "\<dots> \<le> of_int \<lfloor>s\<rfloor>" using assms
    by (metis div_mult_mod_eq le_add_same_cancel1 of_int_le_iff pos_mod_sign)
  also have "\<dots> \<le> s" by simp
  finally show "of_int (\<lfloor>s\<rfloor> div n) \<le> s / of_int n" using n by (simp add: le_divide_eq)
  have "\<lfloor>s\<rfloor> + 1 \<le> (\<lfloor>s\<rfloor> div n + 1) * n"
  proof -
    have "\<lfloor>s\<rfloor> mod n < n" using assms by simp
    then have "\<lfloor>s\<rfloor> mod n + 1 \<le> n" by simp
    moreover have "\<lfloor>s\<rfloor> div n * n = \<lfloor>s\<rfloor> - \<lfloor>s\<rfloor> mod n"
      by (simp add: minus_mod_eq_div_mult)
    then have "(\<lfloor>s\<rfloor> div n + 1) * n = \<lfloor>s\<rfloor> - \<lfloor>s\<rfloor> mod n + n"
      by (simp add: distrib_right)
    ultimately show ?thesis by linarith
  qed
  then have "(of_int (\<lfloor>s\<rfloor> + 1) :: rat) \<le> of_int ((\<lfloor>s\<rfloor> div n + 1) * n)"
    by (simp only: of_int_le_iff)
  moreover have "s < of_int (\<lfloor>s\<rfloor> + 1)" by linarith
  ultimately have "s < of_int ((\<lfloor>s\<rfloor> div n + 1) * n)" by linarith
  then have "s < (of_int (\<lfloor>s\<rfloor> div n) + 1) * of_int n" by simp
  then show "s / of_int n < of_int (\<lfloor>s\<rfloor> div n) + 1" using n by (simp add: divide_less_eq)
qed

lemma floor_rem:
  fixes s :: rat
  shows "\<lfloor>s - 60 * of_int \<lfloor>s / 60\<rfloor>\<rfloor> = \<lfloor>s\<rfloor> mod 60"
proof -
  have "\<lfloor>s / 60\<rfloor> = \<lfloor>s\<rfloor> div 60" using floor_divide_int[of 60 s] by simp
  moreover have "s - 60 * of_int (\<lfloor>s\<rfloor> div 60) = s - of_int (60 * (\<lfloor>s\<rfloor> div 60))" by simp
  ultimately have "\<lfloor>s - 60 * of_int \<lfloor>s / 60\<rfloor>\<rfloor> = \<lfloor>s\<rfloor> - 60 * (\<lfloor>s\<rfloor> div 60)"
    by (simp only: floor_diff_of_int)
  then show ?thesis by (simp add: minus_mult_div_eq_mod)
qed

lemma big: "(2::rat) ^ 53 \<le> 2 powi 1023"
  using powi_mono[of 53 1023] by simp

lemma floor_toString:
  assumes "0 \<le> y" "y < 2 ^ 53"
  shows "number_toString (Math_floor (Num y)) = decimal \<lfloor>y\<rfloor> \<and> 0 \<le> \<lfloor>y\<rfloor>"
proof -
  have a: "0 \<le> \<lfloor>y\<rfloor>" using assms(1) by simp
  have "\<lfloor>y\<rfloor> < 2 ^ 53" using assms(2) by (simp add: floor_less_iff)
  from number_toString_int[OF a this] a show ?thesis by (simp add: Math_floor_def)
qed

lemma rounded_below:
  assumes "0 \<le> x" "x < 2 powi 1023" "2 * x + 1 < 2 ^ 53"
  shows "\<exists>y. to_double x = Num y \<and> \<bar>y - x\<bar> \<le> rounding_bound x \<and> 0 \<le> y \<and> y < 2 ^ 53"
proof -
  from to_double_finite[OF assms(1,2)] obtain y where
    y: "to_double x = Num y" "0 \<le> y" "\<bar>y - x\<bar> \<le> rounding_bound x" by blast
  from y(3) rounding_bound_le[OF assms(1)] have "y \<le> 2 * x + 1" by linarith
  with assms(3) have "y < 2 ^ 53" by linarith
  with y show ?thesis by blast
qed

text \<open>
  Rounding and integers. A binary64 number is a rational that is its own rounding,
  \<open>to_double s = Num s\<close>. Rounding is monotone at integers below \<open>2\<^sup>5\<^sup>3\<close>; two distinct
  binary64 numbers are at least one unit in the last place apart; and the quotient of a
  binary64 number by 3600 or by 60 never rounds up to the next integer, so that its floor
  is the floor of the exact quotient.
\<close>

lemma powi_less_cancel: "(2::rat) powi a < 2 powi b \<Longrightarrow> a < b"
proof (rule ccontr)
  assume "(2::rat) powi a < 2 powi b" "\<not> a < b"
  then have "b \<le> a" by simp
  then have "(2::rat) powi b \<le> 2 powi a" by (rule powi_mono)
  with \<open>(2::rat) powi a < 2 powi b\<close> show False by simp
qed

lemma ilog2_ge:
  assumes "0 < x" "2 powi b \<le> x"
  shows "b \<le> ilog2 x"
proof -
  from ilog2_bounds[OF assms(1)] assms(2) have "(2::rat) powi b < 2 powi (ilog2 x + 1)" by simp
  then have "b < ilog2 x + 1" by (rule powi_less_cancel)
  then show ?thesis by simp
qed

lemma powi_split: "a \<le> b \<Longrightarrow> (2::rat) powi b = of_int (2 ^ nat (b - a)) * 2 powi a"
proof -
  assume "a \<le> b"
  then have "(2::rat) powi b = 2 powi (b - a) * 2 powi a"
    using power_int_add[of "2::rat" "b - a" a] by simp
  also have "(2::rat) powi (b - a) = of_int (2 ^ nat (b - a))"
    using \<open>a \<le> b\<close> by (simp add: powi_nat)
  finally show ?thesis .
qed

lemma to_double_pos:
  assumes "0 < x" "x < 2 powi 1023"
  shows "to_double x =
     Num (of_int (round_half_even (x / 2 powi (max (ilog2 x) (- 1022) - 52)))
          * 2 powi (max (ilog2 x) (- 1022) - 52))"
proof -
  define e where "e = max (ilog2 x) (- 1022)"
  have "ilog2 x < 1023" by (rule ilog2_less[OF assms])
  then have "e < 1023" by (simp add: e_def)
  then show ?thesis using assms(1) by (simp add: to_double_def Let_def e_def[symmetric])
qed

lemma round_half_even_floor:
  "\<lfloor>t\<rfloor> \<le> round_half_even t \<and> round_half_even t \<le> \<lfloor>t\<rfloor> + 1"
  by (simp add: round_half_even_def Let_def)

lemma round_half_even_int: "round_half_even (of_int j) = j"
  by (simp add: round_half_even_def Let_def)

lemma rounded_less:
  assumes "0 < x" "x < 2 powi (e + 1)" "- 1022 \<le> e" "e < 1023" "x + 2 powi (e - 53) < c"
  shows "\<exists>y. to_double x = Num y \<and> y < c"
proof -
  define ex where "ex = max (ilog2 x) (- 1022)"
  define u where "u = (2::rat) powi (ex - 52)"
  define r where "r = round_half_even (x / u)"
  have "ilog2 x < e + 1" by (rule ilog2_less[OF assms(1,2)])
  with assms(3) have exe: "ex \<le> e" by (simp add: ex_def)
  have "(2::rat) powi (e + 1) \<le> 2 powi 1023" using assms(4) by (intro powi_mono) simp
  with assms(2) have x1023: "x < 2 powi 1023" by simp
  have td: "to_double x = Num (of_int r * u)"
    using to_double_pos[OF assms(1) x1023] by (simp add: r_def u_def ex_def)
  have upos: "0 < u" by (simp add: u_def)
  have "of_int r \<le> x / u + 1 / 2" using round_half_even_bounds[of "x / u"] by (simp add: r_def)
  then have "of_int r * u \<le> (x / u + 1 / 2) * u" using upos by (intro mult_right_mono) simp_all
  also have "\<dots> = x + u / 2" using upos by (simp add: field_simps)
  also have "u / 2 = 2 powi (ex - 53)" by (simp add: u_def power_int_diff)
  also have "x + 2 powi (ex - 53) \<le> x + 2 powi (e - 53)" using exe by (simp add: powi_mono)
  finally have "of_int r * u < c" using assms(5) by simp
  with td show ?thesis by blast
qed

lemma rounded_ge_int:
  assumes "0 < x" "x < 2 ^ 53" "of_int K \<le> x"
  shows "\<exists>y. to_double x = Num y \<and> of_int K \<le> y"
proof -
  define ex where "ex = max (ilog2 x) (- 1022)"
  define u where "u = (2::rat) powi (ex - 52)"
  define r where "r = round_half_even (x / u)"
  have x53: "x < 2 powi 53" using assms(2) by simp
  then have "ilog2 x < 53" by (rule ilog2_less[OF assms(1)])
  then have ex52: "ex \<le> 52" by (simp add: ex_def)
  have "(2::rat) powi 53 \<le> 2 powi 1023" by (intro powi_mono) simp
  with x53 have x1023: "x < 2 powi 1023" by simp
  have td: "to_double x = Num (of_int r * u)"
    using to_double_pos[OF assms(1) x1023] by (simp add: r_def u_def ex_def)
  have upos: "0 < u" by (simp add: u_def)
  have one: "(1::rat) = of_int (2 ^ nat (52 - ex)) * u"
    using powi_split[of "ex - 52" 0] ex52 by (simp add: u_def)
  have "(of_int K :: rat) = of_int K * 1" by simp
  also have "(1::rat) = of_int (2 ^ nat (52 - ex)) * u" by (rule one)
  finally have Ku: "(of_int K :: rat) = of_int (K * 2 ^ nat (52 - ex)) * u"
    by (simp add: mult.assoc)
  from assms(3) have "of_int K / u \<le> x / u" using upos by (simp add: divide_right_mono)
  moreover have "of_int K / u = (of_int (K * 2 ^ nat (52 - ex)) :: rat)"
    using upos by (subst Ku) simp
  ultimately have "(of_int (K * 2 ^ nat (52 - ex)) :: rat) \<le> x / u" by simp
  then have "K * 2 ^ nat (52 - ex) \<le> \<lfloor>x / u\<rfloor>" by (simp add: le_floor_iff)
  also have "\<dots> \<le> r" using round_half_even_floor[of "x / u"] by (simp add: r_def)
  finally have "(of_int (K * 2 ^ nat (52 - ex)) :: rat) \<le> of_int r" by (simp only: of_int_le_iff)
  then have le: "of_int (K * 2 ^ nat (52 - ex)) * u \<le> of_int r * u"
    using upos by (intro mult_right_mono) simp_all
  have "(of_int K :: rat) \<le> of_int r * u" by (subst Ku) (rule le)
  with td show ?thesis by blast
qed


lemma double_gap:
  assumes d: "to_double s = Num s" and s0: "0 < s" and s1: "s < 2 powi 1023"
    and sT: "s < of_int T" and ET: "(2::rat) powi E < of_int T" and E52: "E \<le> 52"
  shows "s + 2 powi (E - 52) \<le> of_int T"
proof -
  define g where "g = (2::rat) powi (E - 52)"
  have gpos: "0 < g" by (simp add: g_def)
  define T' where "T' = T * 2 ^ nat (52 - E)"
  have one: "(1::rat) = of_int (2 ^ nat (52 - E)) * g"
    using powi_split[of "E - 52" 0] E52 by (simp add: g_def)
  have "(of_int T :: rat) = of_int T * 1" by simp
  also have "(1::rat) = of_int (2 ^ nat (52 - E)) * g" by (rule one)
  finally have T: "(of_int T :: rat) = of_int T' * g" by (simp add: T'_def mult.assoc)
  have step: "\<And>j. of_int j * g < of_int T \<Longrightarrow> of_int j * g + g \<le> of_int T"
  proof -
    fix j :: int
    assume "of_int j * g < of_int T"
    then have "of_int j * g < of_int T' * g" by (simp only: T)
    then have "(of_int j :: rat) < of_int T'" using gpos by (simp add: mult_less_cancel_right)
    then have "j + 1 \<le> T'" by simp
    then have "(of_int (j + 1) :: rat) \<le> of_int T'" by (simp only: of_int_le_iff)
    then have "of_int (j + 1) * g \<le> of_int T' * g" using gpos by (intro mult_right_mono) simp_all
    then show "of_int j * g + g \<le> of_int T" by (simp add: T algebra_simps)
  qed
  show ?thesis
  proof (cases "2 powi E \<le> s")
    case True
    define es where "es = max (ilog2 s) (- 1022)"
    have "E \<le> ilog2 s" by (rule ilog2_ge[OF s0 True])
    then have esE: "E \<le> es" by (simp add: es_def)
    define r where "r = round_half_even (s / 2 powi (es - 52))"
    from to_double_pos[OF s0 s1] d have sr: "s = of_int r * 2 powi (es - 52)"
      by (simp add: r_def es_def)
    have "(2::rat) powi (es - 52) = of_int (2 ^ nat (es - E)) * g"
      using powi_split[of "E - 52" "es - 52"] esE by (simp add: g_def)
    with sr have "s = of_int (r * 2 ^ nat (es - E)) * g" by (simp add: mult.assoc)
    with step[of "r * 2 ^ nat (es - E)"] sT show ?thesis by (simp add: g_def)
  next
    case False
    have "(2::rat) powi E = of_int (2 ^ 52) * g"
      using powi_split[of "E - 52" E] by (simp add: g_def)
    with step[of "2 ^ 52"] ET have "2 powi E + g \<le> of_int T" by simp
    with False show ?thesis by (simp add: g_def)
  qed
qed

lemma int_binade:
  assumes "1 \<le> N"
  shows "\<exists>e. - 1 \<le> e \<and> (2::rat) powi e < of_int N \<and> of_int N \<le> (2::rat) powi (e + 1)"
proof -
  define z :: rat where "z = of_int N - 1 / 2"
  have zpos: "0 < z" using assms by (simp add: z_def)
  define e where "e = ilog2 z"
  from ilog2_bounds[OF zpos] have lo: "2 powi e \<le> z" and hi: "z < 2 powi (e + 1)"
    by (simp_all add: e_def)
  have "(2::rat) powi (- 1) \<le> z" using assms by (simp add: z_def power_int_minus; linarith)
  with hi have "(2::rat) powi (- 1) < 2 powi (e + 1)" by simp
  then have e1: "- 1 \<le> e" using powi_less_cancel[of "- 1" "e + 1"] by simp
  have "(2::rat) powi (e + 1) = of_int (2 ^ nat (e + 1))" using e1 by (simp add: powi_nat)
  with hi have "of_int N - 1 / 2 < (of_int (2 ^ nat (e + 1)) :: rat)" by (simp add: z_def)
  then have "(of_int N :: rat) < of_int (2 ^ nat (e + 1)) + 1" by linarith
  then have "(of_int N :: rat) < of_int (2 ^ nat (e + 1) + 1)" by simp
  then have "N < 2 ^ nat (e + 1) + 1" by (simp only: of_int_less_iff)
  then have "N \<le> 2 ^ nat (e + 1)" by simp
  then have "(of_int N :: rat) \<le> of_int (2 ^ nat (e + 1))" by (simp only: of_int_le_iff)
  then have up: "of_int N \<le> (2::rat) powi (e + 1)" using e1 by (simp add: powi_nat)
  have "(2::rat) powi e < of_int N" using lo by (simp add: z_def; linarith)
  with e1 up show ?thesis by blast
qed

lemma rounded_le_int:
  assumes "0 < x" "x < 2 ^ 53" "x \<le> of_int K"
  shows "\<exists>y. to_double x = Num y \<and> y \<le> of_int K"
proof -
  define ex where "ex = max (ilog2 x) (- 1022)"
  define u where "u = (2::rat) powi (ex - 52)"
  define r where "r = round_half_even (x / u)"
  have x53: "x < 2 powi 53" using assms(2) by simp
  then have "ilog2 x < 53" by (rule ilog2_less[OF assms(1)])
  then have ex52: "ex \<le> 52" by (simp add: ex_def)
  have "(2::rat) powi 53 \<le> 2 powi 1023" by (intro powi_mono) simp
  with x53 have x1023: "x < 2 powi 1023" by simp
  have td: "to_double x = Num (of_int r * u)"
    using to_double_pos[OF assms(1) x1023] by (simp add: r_def u_def ex_def)
  have upos: "0 < u" by (simp add: u_def)
  have one: "(1::rat) = of_int (2 ^ nat (52 - ex)) * u"
    using powi_split[of "ex - 52" 0] ex52 by (simp add: u_def)
  define K' where "K' = K * 2 ^ nat (52 - ex)"
  have "(of_int K :: rat) = of_int K * 1" by simp
  also have "(1::rat) = of_int (2 ^ nat (52 - ex)) * u" by (rule one)
  finally have Ku: "(of_int K :: rat) = of_int K' * u"
    by (simp add: mult.assoc K'_def)
  from assms(3) have "x / u \<le> of_int K / u" using upos by (simp add: divide_right_mono)
  moreover have "of_int K / u = (of_int K' :: rat)"
    using upos by (subst Ku) simp
  ultimately have t: "x / u \<le> of_int K'" by simp
  have "r \<le> K'"
  proof (cases "x / u = of_int K'")
    case True
    then show ?thesis by (simp add: r_def round_half_even_int)
  next
    case False
    with t have "x / u < of_int K'" by simp
    then have "\<lfloor>x / u\<rfloor> < K'" by (simp add: floor_less_iff)
    with round_half_even_floor[of "x / u"] show ?thesis by (simp add: r_def)
  qed
  then have "(of_int r :: rat) \<le> of_int K'" by (simp only: of_int_le_iff)
  then have le: "of_int r * u \<le> of_int K' * u"
    using upos by (intro mult_right_mono) simp_all
  have "of_int r * u \<le> (of_int K :: rat)" by (subst Ku) (rule le)
  with td show ?thesis by blast
qed

lemma floor_quotient_exact:
  fixes D a :: int
  assumes d: "to_double s = Num s" and s0: "0 \<le> s" and sb: "s + of_int D \<le> 2 ^ 53"
      and a0: "0 \<le> a" and Dlo: "2 ^ nat a < D" and Dhi: "D < 2 ^ nat (a + 1)"
  shows "\<exists>y. to_double (s / of_int D) = Num y \<and> \<lfloor>y\<rfloor> = \<lfloor>s / of_int D\<rfloor>"
proof (cases "s = 0")
  case True
  then show ?thesis by (simp add: to_double_def)
next
  case False
  with s0 have spos: "0 < s" by simp
  have Dpos: "0 < D" using Dlo by (smt (verit) zero_less_power)
  then have Dr: "(0::rat) < of_int D" by simp
  define x where "x = s / of_int D"
  have xpos: "0 < x" using spos Dr by (simp add: x_def)
  define N where "N = \<lfloor>x\<rfloor> + 1"
  have N1: "1 \<le> N" using xpos by (simp add: N_def)
  define T where "T = D * N"
  have xN: "x < of_int N" by (simp add: N_def; linarith)
  have sT: "s < of_int T"
    using xN Dr by (simp add: T_def x_def divide_less_eq mult.commute)
  have "of_int \<lfloor>x\<rfloor> \<le> x" by simp
  then have "of_int \<lfloor>x\<rfloor> * of_int D \<le> s" using Dr by (simp add: x_def le_divide_eq)
  then have Ts: "of_int T \<le> s + of_int D" by (simp add: T_def N_def algebra_simps)
  with sb have T53: "(of_int T :: rat) \<le> 2 ^ 53" by simp
  have s53: "s < 2 ^ 53" using sb Dr by linarith
  have "(2::rat) ^ 53 \<le> 2 powi 1023" by (rule big)
  with s53 have s1023: "s < 2 powi 1023" by simp
  have T1: "1 \<le> T" using sT spos by (smt (verit) of_int_less_iff of_int_0 less_trans zless_imp_add1_zle)
  from int_binade[OF N1] obtain e where
    e1: "- 1 \<le> e" and eN: "(2::rat) powi e < of_int N" and Ne: "of_int N \<le> (2::rat) powi (e + 1)"
    by blast
  from int_binade[OF T1] obtain E where
    ET: "(2::rat) powi E < of_int T" and TE: "of_int T \<le> (2::rat) powi (E + 1)"
    by blast
  have "(2::rat) powi E < 2 powi 53" using ET T53 by simp
  then have E52: "E \<le> 52" using powi_less_cancel[of E 53] by simp
  have "(2::rat) powi (e + a) = 2 powi e * 2 powi a"
    using power_int_add[of "2::rat" e a] by simp
  also have "(2::rat) powi a = of_int (2 ^ nat a)" using a0 by (simp add: powi_nat)
  also have "2 powi e * (of_int (2 ^ nat a) :: rat) < of_int N * of_int D"
  proof -
    have "(of_int (2 ^ nat a) :: rat) < of_int D" using Dlo by (simp only: of_int_less_iff)
    moreover have "(0::rat) < 2 powi e" by simp
    ultimately have "2 powi e * (of_int (2 ^ nat a) :: rat) < 2 powi e * of_int D"
      by (simp only: mult_strict_left_mono)
    also have "\<dots> < of_int N * of_int D" using eN Dr by (simp only: mult_strict_right_mono)
    finally show ?thesis .
  qed
  finally have "(2::rat) powi (e + a) < of_int T" by (simp add: T_def mult.commute)
  with TE have "(2::rat) powi (e + a) < 2 powi (E + 1)" by simp
  then have eaE: "e + a \<le> E" using powi_less_cancel[of "e + a" "E + 1"] by simp
  from double_gap[OF d spos s1023 sT ET E52]
  have "s + 2 powi (E - 52) \<le> of_int T" .
  moreover have "(2::rat) powi (e + a - 52) \<le> 2 powi (E - 52)" using eaE by (intro powi_mono) simp
  ultimately have gap: "s + 2 powi (e + a - 52) \<le> of_int T" by simp
  have D2: "(of_int D :: rat) < 2 powi (a + 1)"
  proof -
    have "(of_int D :: rat) < of_int (2 ^ nat (a + 1))" using Dhi by (simp only: of_int_less_iff)
    then show ?thesis using a0 by (simp add: powi_nat)
  qed
  have "(2::rat) powi (e - 53) * of_int D < 2 powi (e - 53) * 2 powi (a + 1)"
    using D2 by (simp only: mult_strict_left_mono zero_less_power_int zero_less_numeral)
  also have "\<dots> = 2 powi (e + a - 52)"
    using power_int_add[of "2::rat" "e - 53" "a + 1"] by (simp add: algebra_simps)
  finally have "s + 2 powi (e - 53) * of_int D < of_int T" using gap by simp
  then have "(x + 2 powi (e - 53)) * of_int D < of_int N * of_int D"
    using Dr by (simp add: x_def T_def algebra_simps)
  then have close: "x + 2 powi (e - 53) < of_int N"
    using Dr by (simp only: mult_less_cancel_right_pos)
  have xe: "x < 2 powi (e + 1)" using xN Ne by simp
  have "(2::rat) powi e < 2 powi 53"
  proof -
    have "(of_int N :: rat) \<le> of_int N * of_int D"
      using N1 Dpos by (simp add: mult_le_cancel_left1)
    then have "(of_int N :: rat) \<le> of_int T" by (simp add: T_def mult.commute)
    with eN T53 show ?thesis by simp
  qed
  then have e53: "e < 1023" using powi_less_cancel[of e 53] by simp
  have e1022: "- 1022 \<le> e" using e1 by simp
  from rounded_less[OF xpos xe e1022 e53 close] obtain y where
    y: "to_double x = Num y" "y < of_int N" by blast
  have xs: "x \<le> s"
  proof -
    have "(1::rat) \<le> of_int D" using Dpos by simp
    then show ?thesis using spos by (simp add: x_def divide_le_eq mult_le_cancel_left1)
  qed
  with s53 have x53: "x < 2 ^ 53" by simp
  have "of_int (N - 1) \<le> x" by (simp add: N_def)
  from rounded_ge_int[OF xpos x53 this] y(1) have lo: "of_int (N - 1) \<le> y" by simp
  have "\<lfloor>y\<rfloor> = N - 1"
  proof (rule floor_unique)
    show "of_int (N - 1) \<le> y" by (rule lo)
    show "y < of_int (N - 1) + 1" using y(2) by simp
  qed
  with y(1) show ?thesis by (simp add: x_def N_def)
qed

lemma ilog2_mono:
  assumes "0 < a" "a \<le> b"
  shows "ilog2 a \<le> ilog2 b"
proof -
  from assms have bpos: "0 < b" by simp
  from ilog2_bounds[OF bpos] assms(2) have "a < 2 powi (ilog2 b + 1)" by simp
  from ilog2_less[OF assms(1) this] show ?thesis by simp
qed

lemma rem_is_double:
  fixes D :: int
  assumes d: "to_double s = Num s" and s0: "0 \<le> s" and s53: "s < 2 ^ 53" and Dpos: "0 < D"
  shows "to_double (s - of_int D * of_int \<lfloor>s / of_int D\<rfloor>) =
         Num (s - of_int D * of_int \<lfloor>s / of_int D\<rfloor>)"
proof -
  define q where "q = \<lfloor>s / of_int D\<rfloor>"
  define rho where "rho = s - of_int D * of_int q"
  have Dr: "(0::rat) < of_int D" using Dpos by simp
  have r0: "0 \<le> rho"
    using floor_divide_lower[OF Dr, of s] by (simp add: rho_def q_def algebra_simps)
  have q0: "0 \<le> q" using s0 Dr by (simp add: q_def)
  have rs: "rho \<le> s" using q0 Dr by (simp add: rho_def)
  show ?thesis
  proof (cases "rho = 0")
    case True
    then show ?thesis by (simp add: rho_def q_def to_double_def)
  next
    case False
    with r0 have rpos: "0 < rho" by simp
    with rs have spos: "0 < s" by simp
    have "(2::rat) ^ 53 \<le> 2 powi 1023" by (rule big)
    with s53 rs have s1023: "s < 2 powi 1023" and r1023: "rho < 2 powi 1023" by simp_all
    define es where "es = max (ilog2 s) (- 1022)"
    define er where "er = max (ilog2 rho) (- 1022)"
    have "s < 2 powi 53" using s53 by simp
    then have "ilog2 s < 53" by (rule ilog2_less[OF spos])
    then have es52: "es \<le> 52" by (simp add: es_def)
    have eres: "er \<le> es" using ilog2_mono[OF rpos rs] by (simp add: er_def es_def)
    define us where "us = (2::rat) powi (es - 52)"
    define ur where "ur = (2::rat) powi (er - 52)"
    define r where "r = round_half_even (s / us)"
    from to_double_pos[OF spos s1023] d have sr: "s = of_int r * us"
      by (simp add: r_def us_def es_def)
    have one: "(1::rat) = of_int (2 ^ nat (52 - es)) * us"
      using powi_split[of "es - 52" 0] es52 by (simp add: us_def)
    have "(of_int (D * q) :: rat) = of_int (D * q) * 1" by simp
    also have "(1::rat) = of_int (2 ^ nat (52 - es)) * us" by (rule one)
    finally have Dq: "(of_int (D * q) :: rat) = of_int (D * q * 2 ^ nat (52 - es)) * us"
      by (simp add: mult.assoc)
    have "rho = of_int r * us - of_int (D * q)" using sr by (simp add: rho_def)
    also have "\<dots> = of_int r * us - of_int (D * q * 2 ^ nat (52 - es)) * us"
      by (subst Dq) simp
    also have "\<dots> = of_int (r - D * q * 2 ^ nat (52 - es)) * us"
      by (simp add: algebra_simps)
    finally have rho_us: "rho = of_int (r - D * q * 2 ^ nat (52 - es)) * us" .
    have usur: "us = of_int (2 ^ nat (es - er)) * ur"
      using powi_split[of "er - 52" "es - 52"] eres by (simp add: us_def ur_def)
    define j where "j = (r - D * q * 2 ^ nat (52 - es)) * 2 ^ nat (es - er)"
    have rho_ur: "rho = of_int j * ur"
      by (subst rho_us, subst usur) (simp add: j_def mult.assoc)
    have urpos: "0 < ur" by (simp add: ur_def)
    have "rho / ur = of_int j" using urpos by (simp add: rho_ur)
    then have "round_half_even (rho / ur) = j" by (simp add: round_half_even_int)
    with to_double_pos[OF rpos r1023] have "to_double rho = Num (of_int j * ur)"
      by (simp add: ur_def er_def)
    then show ?thesis by (simp add: rho_ur[symmetric] rho_def q_def)
  qed
qed

lemma hours_exact:
  assumes d: "to_double s = Num s" and s0: "0 \<le> s" and s52: "s < 2 ^ 52"
      and h: "number_div (Num s) 3600 = Num h"
  shows "\<lfloor>h\<rfloor> = \<lfloor>s\<rfloor> div 3600"
proof -
  have sb: "s + of_int 3600 \<le> 2 ^ 53" using s52 by simp
  from floor_quotient_exact[OF d s0 sb, of 11] obtain y where
    "to_double (s / of_int 3600) = Num y" "\<lfloor>y\<rfloor> = \<lfloor>s / of_int 3600\<rfloor>" by auto
  with h have "\<lfloor>h\<rfloor> = \<lfloor>s / of_int 3600\<rfloor>" by (simp add: number_div_def)
  then show ?thesis using floor_divide_int[of 3600 s] by simp
qed

lemma minutes_exact:
  assumes d: "to_double s = Num s" and s0: "0 \<le> s" and s52: "s < 2 ^ 52"
      and m: "number_div (number_rem (Num s) 3600) 60 = Num m"
  shows "\<lfloor>m\<rfloor> = \<lfloor>s\<rfloor> mod 3600 div 60"
proof -
  define rho where "rho = s - of_int 3600 * of_int \<lfloor>s / of_int 3600\<rfloor>"
  have s53: "s < 2 ^ 53" using s52 by simp
  have rd: "to_double rho = Num rho"
    unfolding rho_def by (rule rem_is_double[OF d s0 s53]) simp
  have r0: "0 \<le> rho" and r1: "rho < 3600"
    using floor_divide_lower[of 3600 s] floor_divide_upper[of 3600 s]
    by (simp_all add: rho_def algebra_simps)
  have rb: "rho + of_int 60 \<le> 2 ^ 53" using r1 by simp
  from floor_quotient_exact[OF rd r0 rb, of 5] obtain y where
    y: "to_double (rho / of_int 60) = Num y" "\<lfloor>y\<rfloor> = \<lfloor>rho / of_int 60\<rfloor>" by auto
  have "number_rem (Num s) 3600 = Num rho" using s0 by (simp add: number_rem_def rho_def)
  with m y have "\<lfloor>m\<rfloor> = \<lfloor>rho / of_int 60\<rfloor>" by (simp add: number_div_def)
  also have "\<dots> = \<lfloor>rho\<rfloor> div 60" using floor_divide_int[of 60 rho] by simp
  also have "\<lfloor>rho\<rfloor> = \<lfloor>s\<rfloor> mod 3600"
  proof -
    have q: "\<lfloor>s / 3600\<rfloor> = \<lfloor>s\<rfloor> div 3600" using floor_divide_int[of 3600 s] by simp
    have "rho = s - of_int (3600 * (\<lfloor>s\<rfloor> div 3600))" by (simp add: rho_def q)
    then have "\<lfloor>rho\<rfloor> = \<lfloor>s\<rfloor> - 3600 * (\<lfloor>s\<rfloor> div 3600)" by (simp only: floor_diff_of_int)
    then show ?thesis by (simp add: minus_mult_div_eq_mod)
  qed
  finally show ?thesis .
qed

lemma millis_between:
  assumes s0: "0 \<le> s"
      and ms: "number_mul (number_rem (Num s) 1) 1000 = Num ms"
  shows "of_int \<lfloor>(s - of_int \<lfloor>s\<rfloor>) * 1000\<rfloor> \<le> ms
       \<and> ms \<le> of_int \<lfloor>(s - of_int \<lfloor>s\<rfloor>) * 1000\<rfloor> + 1"
proof -
  define x where "x = (s - of_int \<lfloor>s\<rfloor>) * 1000"
  have td: "to_double x = Num ms"
    using ms s0 by (simp add: number_mul_def number_rem_def x_def)
  have f: "0 \<le> s - of_int \<lfloor>s\<rfloor>" "s - of_int \<lfloor>s\<rfloor> < 1"
    using floor_correct[of s] by simp_all
  then have x0: "0 \<le> x" and x1: "x < 2 ^ 53" by (simp_all add: x_def)
  have "of_int \<lfloor>x\<rfloor> \<le> ms \<and> ms \<le> of_int \<lfloor>x\<rfloor> + 1"
  proof (cases "x = 0")
    case True
    with td have "ms = 0" by (simp add: to_double_def)
    with True show ?thesis by simp
  next
    case False
    with x0 have xpos: "0 < x" by simp
    have "of_int \<lfloor>x\<rfloor> \<le> x" by simp
    from rounded_ge_int[OF xpos x1 this] td have lo: "of_int \<lfloor>x\<rfloor> \<le> ms" by simp
    have "x \<le> of_int (\<lfloor>x\<rfloor> + 1)" using floor_correct[of x] by simp
    from rounded_le_int[OF xpos x1 this] td have "ms \<le> of_int (\<lfloor>x\<rfloor> + 1)" by simp
    with lo show ?thesis by simp
  qed
  then show ?thesis by (simp only: x_def)
qed

lemma frac_is_double:
  assumes "to_double s = Num s" "0 \<le> s" "s < 2 ^ 53"
  shows "to_double (s - of_int \<lfloor>s\<rfloor>) = Num (s - of_int \<lfloor>s\<rfloor>)"
  using rem_is_double[OF assms, of 1] by simp

lemma millis_less_1000:
  assumes d: "to_double s = Num s" and s0: "0 \<le> s" and s53: "s < 2 ^ 53"
      and ms: "number_mul (number_rem (Num s) 1) 1000 = Num ms"
  shows "ms < 1000"
proof -
  define f where "f = s - of_int \<lfloor>s\<rfloor>"
  have fd: "to_double f = Num f" unfolding f_def by (rule frac_is_double[OF d s0 s53])
  have f0: "0 \<le> f" and f1: "f < 1" using floor_correct[of s] by (simp_all add: f_def)
  have td: "to_double (f * 1000) = Num ms"
    using ms s0 by (simp add: number_mul_def number_rem_def f_def)
  show ?thesis
  proof (cases "f = 0")
    case True
    with td show ?thesis by (simp add: to_double_def)
  next
    case False
    with f0 have fpos: "0 < f" by simp
    have f1023: "f < 2 powi 1023" using f1 big by simp
    have sT: "f < of_int 1" using f1 by simp
    have ET: "(2::rat) powi (- 1) < of_int 1" by (simp add: power_int_minus)
    have "f + 2 powi (- 1 - 52) \<le> of_int 1"
      by (rule double_gap[OF fd fpos f1023 sT ET]) simp
    then have gap: "f + 1 / 2 ^ 53 \<le> 1" by (simp add: power_int_minus field_simps)
    have x: "0 < f * 1000" using fpos by simp
    have xe: "f * 1000 < 2 powi (9 + 1)" using f1 by simp
    have "(2::rat) powi (9 - 53) = 1 / 2 ^ 44" by (simp add: power_int_minus field_simps)
    with gap have close: "f * 1000 + 2 powi (9 - 53) < 1000" by simp
    from rounded_less[OF x xe _ _ close] obtain y where
      "to_double (f * 1000) = Num y" "y < 1000" by auto
    with td show ?thesis by simp
  qed
qed

lemma decimal_digit: "n < 10 \<Longrightarrow> decimal n = [digit_char n]"
  by (subst decimal.simps) simp

lemma decimal_length_2: "10 \<le> n \<Longrightarrow> n < 100 \<Longrightarrow> length (decimal n) = 2"
  by (subst decimal.simps) (simp add: decimal_digit)

lemma decimal_length_3: "100 \<le> n \<Longrightarrow> n < 1000 \<Longrightarrow> length (decimal n) = 3"
  by (subst decimal.simps) (simp add: decimal_length_2)

lemma padStart_2_length: "n < 100 \<Longrightarrow> length (padStart 2 c (decimal n)) = 2"
  by (cases "n < 10") (simp_all add: padStart_def decimal_digit decimal_length_2)

lemma padStart_3_length: "n < 1000 \<Longrightarrow> length (padStart 3 c (decimal n)) = 3"
  by (cases "n < 10"; cases "n < 100")
     (simp_all add: padStart_def decimal_digit decimal_length_2 decimal_length_3)

lemma padStart_length_ge: "k \<le> length (padStart k c s)"
  by (simp add: padStart_def)

lemma powi_1024: "(2::rat) powi 1024 = 2 * 2 powi 1023"
  using power_int_add_1'[of "2::rat" 1023] by simp

text \<open>
  For every finite number of seconds \<open>s \<ge> 0\<close>, binary64 or not, the four fields are the
  integer parts of the binary64 values \<open>h\<close>, \<open>m\<close> and \<open>ms\<close> of \<open>s / 3600\<close>,
  \<open>(s mod 3600) / 60\<close> and \<open>(s mod 1) * 1000\<close>, and of \<open>s mod 60\<close>, which is exact.
\<close>

lemma formatSrtTime_floors:
  assumes s0: "0 \<le> s" and s1024: "s < 2 powi 1024"
  shows "\<exists>h m ms.
          number_div (Num s) 3600 = Num h
        \<and> \<bar>h - s / 3600\<bar> \<le> rounding_bound (s / 3600)
        \<and> number_div (number_rem (Num s) 3600) 60 = Num m
        \<and> \<bar>m - (s - 3600 * of_int \<lfloor>s / 3600\<rfloor>) / 60\<bar>
             \<le> rounding_bound ((s - 3600 * of_int \<lfloor>s / 3600\<rfloor>) / 60)
        \<and> number_mul (number_rem (Num s) 1) 1000 = Num ms
        \<and> \<bar>ms - (s - of_int \<lfloor>s\<rfloor>) * 1000\<bar> \<le> rounding_bound ((s - of_int \<lfloor>s\<rfloor>) * 1000)
        \<and> 0 \<le> h \<and> 0 \<le> m \<and> 0 \<le> ms
        \<and> formatSrtTime (Num s) =
            padStart 2 CHR ''0'' (number_toString (Num (of_int \<lfloor>h\<rfloor>))) @ '':''
            @ padStart 2 CHR ''0'' (decimal \<lfloor>m\<rfloor>) @ '':''
            @ padStart 2 CHR ''0'' (decimal (\<lfloor>s\<rfloor> mod 60)) @ '',''
            @ padStart 3 CHR ''0'' (decimal \<lfloor>ms\<rfloor>)
        \<and> (s < 2 ^ 53 \<longrightarrow> number_toString (Num (of_int \<lfloor>h\<rfloor>)) = decimal \<lfloor>h\<rfloor>)"
proof -
  have s1: "s < 2 * 2 powi 1023" using s1024 by (simp add: powi_1024)
  define x1 where "x1 = s / 3600"
  define rho where "rho = s - 3600 * of_int \<lfloor>s / 3600\<rfloor>"
  define x2 where "x2 = rho / 60"
  define f where "f = s - of_int \<lfloor>s\<rfloor>"
  define x3 where "x3 = f * 1000"
  have x1: "0 \<le> x1" "x1 < 2 powi 1023"
    using s0 s1 by (simp_all add: x1_def)
  have rho: "0 \<le> rho" "rho < 3600"
    using floor_divide_lower[of 3600 s] floor_divide_upper[of 3600 s]
    by (simp_all add: rho_def algebra_simps)
  have x2: "0 \<le> x2" "x2 < 2 powi 1023" "2 * x2 + 1 < 2 ^ 53"
    using rho big by (simp_all add: x2_def)
  have f: "0 \<le> f" "f < 1"
    using floor_correct[of s] by (simp_all add: f_def)
  have x3: "0 \<le> x3" "x3 < 2 powi 1023" "2 * x3 + 1 < 2 ^ 53"
    using f big by (simp_all add: x3_def)
  from to_double_finite[OF x1] obtain h where
    h: "to_double x1 = Num h" "0 \<le> h" "\<bar>h - x1\<bar> \<le> rounding_bound x1" by blast
  from rounded_below[OF x2] obtain m where
    m: "to_double x2 = Num m" "\<bar>m - x2\<bar> \<le> rounding_bound x2" "0 \<le> m" "m < 2 ^ 53" by blast
  from rounded_below[OF x3] obtain ms where
    ms: "to_double x3 = Num ms" "\<bar>ms - x3\<bar> \<le> rounding_bound x3" "0 \<le> ms" "ms < 2 ^ 53" by blast
  have dh: "number_div (Num s) 3600 = Num h"
    using h(1) by (simp add: number_div_def x1_def)
  have r3600: "number_rem (Num s) 3600 = Num rho"
    using s0 by (simp add: number_rem_def rho_def)
  have dm: "number_div (number_rem (Num s) 3600) 60 = Num m"
    using m(1) by (simp add: r3600 number_div_def x2_def)
  have r1: "number_rem (Num s) 1 = Num f"
    using s0 by (simp add: number_rem_def f_def)
  have dms: "number_mul (number_rem (Num s) 1) 1000 = Num ms"
    using ms(1) by (simp add: r1 number_mul_def x3_def)
  have r60: "number_rem (Num s) 60 = Num (s - 60 * of_int \<lfloor>s / 60\<rfloor>)"
    using s0 by (simp add: number_rem_def)
  have sec0: "0 \<le> \<lfloor>s\<rfloor> mod 60" "\<lfloor>s\<rfloor> mod 60 < 2 ^ 53"
    by simp_all
  have tsec: "number_toString (Math_floor (number_rem (Num s) 60)) = decimal (\<lfloor>s\<rfloor> mod 60)"
    using number_toString_int[OF sec0] by (simp add: r60 Math_floor_def floor_rem)
  have fh: "Math_floor (Num h) = Num (of_int \<lfloor>h\<rfloor>)"
    by (simp add: Math_floor_def)
  from floor_toString[OF m(3,4)] floor_toString[OF ms(3,4)]
  have fmt: "formatSrtTime (Num s) =
            padStart 2 CHR ''0'' (number_toString (Num (of_int \<lfloor>h\<rfloor>))) @ '':''
            @ padStart 2 CHR ''0'' (decimal \<lfloor>m\<rfloor>) @ '':''
            @ padStart 2 CHR ''0'' (decimal (\<lfloor>s\<rfloor> mod 60)) @ '',''
            @ padStart 3 CHR ''0'' (decimal \<lfloor>ms\<rfloor>)"
    by (simp add: formatSrtTime_def Let_def dh dm dms tsec fh)
  have small: "s < 2 ^ 53 \<longrightarrow> number_toString (Num (of_int \<lfloor>h\<rfloor>)) = decimal \<lfloor>h\<rfloor>"
  proof
    assume "s < 2 ^ 53"
    then have "2 * x1 + 1 < 2 ^ 53" using s0 by (simp add: x1_def)
    moreover from h(3) rounding_bound_le[OF x1(1)] have "h \<le> 2 * x1 + 1" by linarith
    ultimately have "h < 2 ^ 53" by linarith
    from floor_toString[OF h(2) this]
    show "number_toString (Num (of_int \<lfloor>h\<rfloor>)) = decimal \<lfloor>h\<rfloor>"
      by (simp add: Math_floor_def)
  qed
  from h(3) have eh: "\<bar>h - s / 3600\<bar> \<le> rounding_bound (s / 3600)" by (simp add: x1_def)
  from m(2) have em: "\<bar>m - (s - 3600 * of_int \<lfloor>s / 3600\<rfloor>) / 60\<bar>
             \<le> rounding_bound ((s - 3600 * of_int \<lfloor>s / 3600\<rfloor>) / 60)"
    by (simp add: x2_def rho_def)
  from ms(2) have ems: "\<bar>ms - (s - of_int \<lfloor>s\<rfloor>) * 1000\<bar> \<le> rounding_bound ((s - of_int \<lfloor>s\<rfloor>) * 1000)"
    by (simp add: x3_def f_def)
  show ?thesis
    by (intro exI[of _ h] exI[of _ m] exI[of _ ms] conjI
          dh eh dm em dms ems h(2) m(3) ms(3) fmt small)
qed

text \<open>
  Claim C6, as amended. For a binary64 number of seconds \<open>0 \<le> s < 2\<^sup>5\<^sup>2\<close> the formatter
  prints \<^verbatim>\<open>HH:MM:SS,mmm\<close>. The hours are \<open>\<lfloor>s\<rfloor> div 3600\<close> in decimal digits, padded with zeros to
  at least 2 characters; the minutes are \<open>(\<lfloor>s\<rfloor> mod 3600) div 60\<close> and the seconds
  \<open>\<lfloor>s\<rfloor> mod 60\<close>, padded to exactly 2 characters: these three are truncated exactly. The
  milliseconds field has exactly 3 characters and lies between 0 and 999: it is the integer
  part of \<open>ms\<close>, the binary64 product \<open>(s mod 1) * 1000\<close>, which is within half a unit in
  the last place of the exact product. So the field is the truncated millisecond count of
  \<open>s\<close>, or else the product has been rounded up to the next integer and the field is one
  more. In particular 0 gives \<^verbatim>\<open>00:00:00,000\<close>, 65.5 gives \<^verbatim>\<open>00:01:05,500\<close>, and the
  binary64 number nearest to 3661.001 gives \<^verbatim>\<open>01:01:01,001\<close>.
\<close>

theorem formatSrtTime_fields:
  "(to_double s = Num s \<and> 0 \<le> s \<and> s < 2 ^ 52 \<longrightarrow>
      (\<exists>ms. number_mul (number_rem (Num s) 1) 1000 = Num ms
          \<and> \<bar>ms - (s - of_int \<lfloor>s\<rfloor>) * 1000\<bar> \<le> rounding_bound ((s - of_int \<lfloor>s\<rfloor>) * 1000)
          \<and> (\<lfloor>ms\<rfloor> = \<lfloor>(s - of_int \<lfloor>s\<rfloor>) * 1000\<rfloor>
              \<or> ms = of_int \<lfloor>(s - of_int \<lfloor>s\<rfloor>) * 1000\<rfloor> + 1)
          \<and> 0 \<le> \<lfloor>ms\<rfloor> \<and> \<lfloor>ms\<rfloor> \<le> 999
          \<and> formatSrtTime (Num s) =
              padStart 2 CHR ''0'' (decimal (\<lfloor>s\<rfloor> div 3600)) @ '':''
              @ padStart 2 CHR ''0'' (decimal (\<lfloor>s\<rfloor> mod 3600 div 60)) @ '':''
              @ padStart 2 CHR ''0'' (decimal (\<lfloor>s\<rfloor> mod 60)) @ '',''
              @ padStart 3 CHR ''0'' (decimal \<lfloor>ms\<rfloor>)
          \<and> 2 \<le> length (padStart 2 CHR ''0'' (decimal (\<lfloor>s\<rfloor> div 3600)))
          \<and> length (padStart 2 CHR ''0'' (decimal (\<lfloor>s\<rfloor> mod 3600 div 60))) = 2
          \<and> length (padStart 2 CHR ''0'' (decimal (\<lfloor>s\<rfloor> mod 60))) = 2
          \<and> length (padStart 3 CHR ''0'' (decimal \<lfloor>ms\<rfloor>)) = 3))
   \<and> formatSrtTime (Num 0) = ''00:00:00,000''
   \<and> formatSrtTime (Num (131 / 2)) = ''00:01:05,500''
   \<and> formatSrtTime (to_double (3661001 / 1000)) = ''01:01:01,001''"
proof (intro conjI impI)
  assume a: "to_double s = Num s \<and> 0 \<le> s \<and> s < 2 ^ 52"
  then have d: "to_double s = Num s" and s0: "0 \<le> s" and s52: "s < 2 ^ 52" by simp_all
  have s53: "s < 2 ^ 53" using s52 by simp
  have "(2::rat) ^ 53 \<le> 2 powi 1024" using powi_mono[of 53 1024] by simp
  with s53 have s1024: "s < 2 powi 1024" by simp
  from formatSrtTime_floors[OF s0 s1024] s53 obtain h m ms where
        dh: "number_div (Num s) 3600 = Num h"
    and dm: "number_div (number_rem (Num s) 3600) 60 = Num m"
    and dms: "number_mul (number_rem (Num s) 1) 1000 = Num ms"
    and ems: "\<bar>ms - (s - of_int \<lfloor>s\<rfloor>) * 1000\<bar> \<le> rounding_bound ((s - of_int \<lfloor>s\<rfloor>) * 1000)"
    and ms0: "0 \<le> ms"
    and fmt: "formatSrtTime (Num s) =
            padStart 2 CHR ''0'' (number_toString (Num (of_int \<lfloor>h\<rfloor>))) @ '':''
            @ padStart 2 CHR ''0'' (decimal \<lfloor>m\<rfloor>) @ '':''
            @ padStart 2 CHR ''0'' (decimal (\<lfloor>s\<rfloor> mod 60)) @ '',''
            @ padStart 3 CHR ''0'' (decimal \<lfloor>ms\<rfloor>)"
    and ts: "number_toString (Num (of_int \<lfloor>h\<rfloor>)) = decimal \<lfloor>h\<rfloor>"
    by blast
  have hh: "\<lfloor>h\<rfloor> = \<lfloor>s\<rfloor> div 3600" by (rule hours_exact[OF d s0 s52 dh])
  have mm: "\<lfloor>m\<rfloor> = \<lfloor>s\<rfloor> mod 3600 div 60" by (rule minutes_exact[OF d s0 s52 dm])
  have fmt': "formatSrtTime (Num s) =
              padStart 2 CHR ''0'' (decimal (\<lfloor>s\<rfloor> div 3600)) @ '':''
              @ padStart 2 CHR ''0'' (decimal (\<lfloor>s\<rfloor> mod 3600 div 60)) @ '':''
              @ padStart 2 CHR ''0'' (decimal (\<lfloor>s\<rfloor> mod 60)) @ '',''
              @ padStart 3 CHR ''0'' (decimal \<lfloor>ms\<rfloor>)"
    using fmt by (simp only: hh mm ts[unfolded hh])
  define t where "t = \<lfloor>(s - of_int \<lfloor>s\<rfloor>) * 1000\<rfloor>"
  from millis_between[OF s0 dms] have lo: "of_int t \<le> ms" and hi: "ms \<le> of_int t + 1"
    by (simp_all add: t_def)
  have alt: "\<lfloor>ms\<rfloor> = t \<or> ms = of_int t + 1"
  proof (cases "ms < of_int t + 1")
    case True
    with lo have "\<lfloor>ms\<rfloor> = t" by (intro floor_unique)
    then show ?thesis ..
  next
    case False
    with hi have "ms = of_int t + 1" by simp
    then show ?thesis ..
  qed
  have k0: "0 \<le> \<lfloor>ms\<rfloor>" using ms0 by simp
  have "ms < 1000" by (rule millis_less_1000[OF d s0 s53 dms])
  then have "\<lfloor>ms\<rfloor> < 1000" by (simp add: floor_less_iff)
  then have k999: "\<lfloor>ms\<rfloor> \<le> 999" by simp
  have l1: "2 \<le> length (padStart 2 CHR ''0'' (decimal (\<lfloor>s\<rfloor> div 3600)))"
    by (rule padStart_length_ge)
  have l2: "length (padStart 2 CHR ''0'' (decimal (\<lfloor>s\<rfloor> mod 3600 div 60))) = 2"
    by (rule padStart_2_length) simp
  have l3: "length (padStart 2 CHR ''0'' (decimal (\<lfloor>s\<rfloor> mod 60))) = 2"
    by (rule padStart_2_length) simp
  have l4: "length (padStart 3 CHR ''0'' (decimal \<lfloor>ms\<rfloor>)) = 3"
    by (rule padStart_3_length) (use \<open>\<lfloor>ms\<rfloor> < 1000\<close> in simp)
  show "\<exists>ms. number_mul (number_rem (Num s) 1) 1000 = Num ms
          \<and> \<bar>ms - (s - of_int \<lfloor>s\<rfloor>) * 1000\<bar> \<le> rounding_bound ((s - of_int \<lfloor>s\<rfloor>) * 1000)
          \<and> (\<lfloor>ms\<rfloor> = \<lfloor>(s - of_int \<lfloor>s\<rfloor>) * 1000\<rfloor>
              \<or> ms = of_int \<lfloor>(s - of_int \<lfloor>s\<rfloor>) * 1000\<rfloor> + 1)
          \<and> 0 \<le> \<lfloor>ms\<rfloor> \<and> \<lfloor>ms\<rfloor> \<le> 999
          \<and> formatSrtTime (Num s) =
              padStart 2 CHR ''0'' (decimal (\<lfloor>s\<rfloor> div 3600)) @ '':''
              @ padStart 2 CHR ''0'' (decimal (\<lfloor>s\<rfloor> mod 3600 div 60)) @ '':''
              @ padStart 2 CHR ''0'' (decimal (\<lfloor>s\<rfloor> mod 60)) @ '',''
              @ padStart 3 CHR ''0'' (decimal \<lfloor>ms\<rfloor>)
          \<and> 2 \<le> length (padStart 2 CHR ''0'' (decimal (\<lfloor>s\<rfloor> div 3600)))
          \<and> length (padStart 2 CHR ''0'' (decimal (\<lfloor>s\<rfloor> mod 3600 div 60))) = 2
          \<and> length (padStart 2 CHR ''0'' (decimal (\<lfloor>s\<rfloor> mod 60))) = 2
          \<and> length (padStart 3 CHR ''0'' (decimal \<lfloor>ms\<rfloor>)) = 3"
    using alt by (intro exI[of _ ms] conjI dms ems k0 k999 fmt' l1 l2 l3 l4) (simp only: t_def)
next
  show "formatSrtTime (Num 0) = ''00:00:00,000''" by code_simp
next
  show "formatSrtTime (Num (131 / 2)) = ''00:01:05,500''" by code_simp
next
  show "formatSrtTime (to_double (3661001 / 1000)) = ''01:01:01,001''" by code_simp
qed

text \<open>At the binary64 number that \<^verbatim>\<open>0.29\<close> denotes: the product is rounded up to 290, one
  more than the 289 whole milliseconds of that number.\<close>

theorem formatSrtTime_fields_witness:
  "\<exists>ms. number_mul (number_rem (parseFloat ''0.29'') 1) 1000 = Num ms
      \<and> \<lfloor>ms\<rfloor> = 290
      \<and> formatSrtTime (parseFloat ''0.29'') =
          padStart 2 CHR ''0'' (decimal 0) @ '':'' @ padStart 2 CHR ''0'' (decimal 0) @ '':''
          @ padStart 2 CHR ''0'' (decimal 0) @ '','' @ padStart 3 CHR ''0'' (decimal 290)"
proof -
  define s :: rat where "s = 5224175567749775 / 2 ^ 54"
  have p: "parseFloat ''0.29'' = Num s" unfolding s_def by code_simp
  have d: "to_double s = Num s" unfolding s_def by code_simp
  have b: "0 \<le> s" "s < 2 ^ 52" by (simp_all add: s_def)
  have fl: "\<lfloor>s\<rfloor> = 0" unfolding s_def by (rule floor_unique) simp_all
  have t: "\<lfloor>(s - of_int \<lfloor>s\<rfloor>) * 1000\<rfloor> = 289"
    unfolding fl unfolding s_def by (rule floor_unique) simp_all
  have v: "number_mul (number_rem (Num s) 1) 1000 = Num 290" unfolding s_def by code_simp
  from d b have h: "to_double s = Num s \<and> 0 \<le> s \<and> s < 2 ^ 52" by simp
  from mp[OF conjunct1[OF formatSrtTime_fields[of s]] h] obtain ms where
        1: "number_mul (number_rem (Num s) 1) 1000 = Num ms"
    and 2: "\<lfloor>ms\<rfloor> = \<lfloor>(s - of_int \<lfloor>s\<rfloor>) * 1000\<rfloor> \<or> ms = of_int \<lfloor>(s - of_int \<lfloor>s\<rfloor>) * 1000\<rfloor> + 1"
    and 3: "formatSrtTime (Num s) =
              padStart 2 CHR ''0'' (decimal (\<lfloor>s\<rfloor> div 3600)) @ '':''
              @ padStart 2 CHR ''0'' (decimal (\<lfloor>s\<rfloor> mod 3600 div 60)) @ '':''
              @ padStart 2 CHR ''0'' (decimal (\<lfloor>s\<rfloor> mod 60)) @ '',''
              @ padStart 3 CHR ''0'' (decimal \<lfloor>ms\<rfloor>)"
    by blast
  from 1 v have ms: "ms = 290" by simp
  then have k: "\<lfloor>ms\<rfloor> = 290" by simp
  from 3 have "formatSrtTime (Num s) =
          padStart 2 CHR ''0'' (decimal 0) @ '':'' @ padStart 2 CHR ''0'' (decimal 0) @ '':''
          @ padStart 2 CHR ''0'' (decimal 0) @ '','' @ padStart 3 CHR ''0'' (decimal 290)"
    by (simp only: fl k) simp
  with 1 k show ?thesis unfolding p by blast
qed

text \<open>
  Claim C6 as it was stated fails. The binary64 number that \<^verbatim>\<open>0.29\<close> denotes has 289
  whole milliseconds, and the formatter prints 290; an infinite number of seconds and a
  number of hours from \<open>10\<^sup>2\<^sup>1\<close> on are not printed as digits.
\<close>

theorem formatSrtTime_rounds_up_counterexample:
  "parseFloat ''0.29'' = Num (5224175567749775 / 2 ^ 54)
   \<and> to_double (5224175567749775 / 2 ^ 54) = Num (5224175567749775 / 2 ^ 54)
   \<and> \<lfloor>(5224175567749775 / 2 ^ 54 - of_int \<lfloor>5224175567749775 / 2 ^ 54 :: rat\<rfloor>) * 1000 :: rat\<rfloor> = 289
   \<and> formatSrtTime (parseFloat ''0.29'') = ''00:00:00,290''
   \<and> formatSrtTime Infinity = ''Infinity:NaN:NaN,NaN''
   \<and> to_double (2 ^ 70 * 3600) = Num (2 ^ 70 * 3600)
   \<and> formatSrtTime (Num (2 ^ 70 * 3600)) = ''1.1805916207174113e+21:00:00,000''"
  by (intro conjI; code_simp)

section \<open>Properties of the orchestrator\<close>

text \<open>
  Claim C7, at a file name without extension. For \<^verbatim>\<open>recording\<close> the expression
  \<^verbatim>\<open>file.name.split('.').pop()\<close> is the whole name, which is not empty, so the media format
  is \<^verbatim>\<open>recording\<close> and not the default \<^verbatim>\<open>mp3\<close>. The default is taken only when
  the name is empty or ends with a dot.
\<close>

theorem mediaFormat_without_extension:
  "mediaFormat ''recording'' = ''recording''
   \<and> mediaFormat ''talk.WAV'' = ''wav''
   \<and> mediaFormat ''talk.'' = ''mp3''"
  by code_simp

text \<open>For every behaviour of the services, the polling loop is left only with a completed
  job or after all 60 polls.\<close>

lemma pollCount_poll_iteration: "pollCount (poll_iteration sv st) = Suc (pollCount st)"
  by (auto simp: poll_iteration_def poll_try_def Let_def split: sum.splits option.splits)

lemma poll_loop_leaves:
  "pollCount st \<le> maxPolls \<Longrightarrow>
   jobComplete (poll_loop sv st) \<or> pollCount (poll_loop sv st) = maxPolls"
proof (induction sv st rule: poll_loop.induct)
  case (1 sv st)
  show ?case
  proof (cases "\<not> jobComplete st \<and> pollCount st < maxPolls")
    case True
    then have "pollCount (poll_iteration sv st) \<le> maxPolls"
      by (simp add: pollCount_poll_iteration)
    from "1.IH"[OF True this] True show ?thesis
      by (subst (1 2) poll_loop.simps) simp
  next
    case False
    with "1.prems" show ?thesis
      by (subst (1 2) poll_loop.simps) auto
  qed
qed

lemma timed_out_after_all_polls:
  "\<not> jobComplete (poll_loop sv poll_start) \<Longrightarrow> pollCount (poll_loop sv poll_start) = 60"
  using poll_loop_leaves[of poll_start sv] by (simp add: poll_start_def maxPolls_def)

text \<open>
  Claim C2, at a job that the provider reports as \<^verbatim>\<open>FAILED\<close> on every poll. The error
  \<^verbatim>\<open>Transcription job failed: Unsupported audio\<close> is thrown inside the inner \<^verbatim>\<open>try\<close>, so its
  handler catches and logs it, and the loop goes on: it polls 60 times, and the run ends
  with the time-out error.
\<close>

theorem failed_job_polls_until_timeout:
  "pollCount (poll_loop (sample_services upload_ok job_failed) poll_start) = 60
   \<and> logged (poll_loop (sample_services upload_ok job_failed) poll_start) =
       replicate 60 (Error ''Transcription job failed: Unsupported audio'')
   \<and> pipeline (sample_services upload_ok job_failed) (sample_file 0) ''ta-IN'' =
       Inl (Error ''Transcription job timed out after 5 minutes'')"
  by code_simp

text \<open>
  Claim C1, at a file whose \<open>lastModified\<close> is one millisecond beyond the range of valid
  time values, with an upload that fails on each of its three attempts. The handler of the
  outer \<^verbatim>\<open>try\<close> throws while it logs the file details, so the call is rejected with a
  \<^verbatim>\<open>RangeError\<close> instead of resolving to the simulated result.
\<close>

theorem transcribeAudio_throws_while_logging:
  "transcribeAudio (sample_services upload_fails job_completed)
     (sample_file 8640000000000001) ''ta-IN'' = Inl (Error ''Invalid time value'')"
  by code_simp

text \<open>
  For every other file the entry point does not throw: whenever the pipeline fails it
  returns the simulated result, which is a track of three blocks with duration \<^verbatim>\<open>0:15\<close>.
\<close>

lemma simulateTranscription_blocks:
  "srtContent (simulateTranscription file) =
     render_blocks 1
       [\<lparr>block_start = ''00:00:00,000'', block_end = ''00:00:05,000'',
         block_text = ''This is a simulated transcription for ''
                      @ strip_extension (file_name file) @ ''.''\<rparr>,
        \<lparr>block_start = ''00:00:05,500'', block_end = ''00:00:10,000'',
         block_text = ''The actual transcription service encountered an error.''\<rparr>,
        \<lparr>block_start = ''00:00:10,500'', block_end = ''00:00:15,000'',
         block_text = ''Please check your AWS credentials and try again.''\<rparr>]
   \<and> duration (simulateTranscription file) = ''0:15''
   \<and> rawTranscriptData (simulateTranscription file) = None"
proof -
  have d: "decimal 1 = ''1''" "decimal 2 = ''2''" "decimal 3 = ''3''"
    by code_simp+
  show ?thesis
    by (simp add: simulateTranscription_def srt_block_def Let_def d eval_nat_numeral)
qed

lemma transcribeAudio_falls_back:
  assumes "\<not> toISOString_throws (lastModified file)"
  shows "\<exists>r. transcribeAudio sv file language = Inr r"
    and "pipeline sv file language = Inl e \<Longrightarrow>
         transcribeAudio sv file language = Inr (simulateTranscription file)"
  using assms by (auto simp: transcribeAudio_def split: sum.splits)

lemma fetch_transcript_raw:
  "fetch_transcript sv uri = Inr r \<Longrightarrow>
   \<exists>pathname body td.
       url_pathname sv uri = Inr pathname
     \<and> s3_getObject sv (join CHR ''/'' (drop 2 (split CHR ''/'' pathname))) = Inr body
     \<and> JSON_parse sv (case body of None \<Rightarrow> [] | Some b \<Rightarrow> b) = Inr (Some td)
     \<and> rawTranscriptData r = Some td
     \<and> convertTranscriptToSrt td = Inr (srtContent r)"
  unfolding fetch_transcript_def Let_def
  by (auto split: sum.splits option.splits)

lemma retrieve_Inr:
  "retrieve sv uri = Inr r \<Longrightarrow> fetch_transcript sv uri = Inr r"
  by (simp add: retrieve_def split: sum.splits)

lemma pipeline_Inr:
  "pipeline sv file language = Inr r \<Longrightarrow>
   \<exists>job uri. transcriptionJob (poll_loop sv poll_start) = Some job
            \<and> TranscriptFileUri job = Some uri \<and> retrieve sv uri = Inr r"
  unfolding pipeline_def Let_def
  by (auto split: sum.splits option.splits if_splits)

lemma pipeline_raw:
  assumes "pipeline sv file language = Inr r"
  shows "\<exists>job uri pathname body td.
            transcriptionJob (poll_loop sv poll_start) = Some job
          \<and> TranscriptFileUri job = Some uri
          \<and> url_pathname sv uri = Inr pathname
          \<and> s3_getObject sv (join CHR ''/'' (drop 2 (split CHR ''/'' pathname))) = Inr body
          \<and> JSON_parse sv (case body of None \<Rightarrow> [] | Some b \<Rightarrow> b) = Inr (Some td)
          \<and> rawTranscriptData r = Some td
          \<and> convertTranscriptToSrt td = Inr (srtContent r)"
proof -
  from pipeline_Inr[OF assms] obtain job uri where
    j: "transcriptionJob (poll_loop sv poll_start) = Some job" "TranscriptFileUri job = Some uri"
    and "retrieve sv uri = Inr r" by blast
  then have "fetch_transcript sv uri = Inr r" by (simp add: retrieve_Inr)
  from fetch_transcript_raw[OF this] j show ?thesis by blast
qed

text \<open>
  Claim C9. A result that the entry point returns after a failure of the pipeline is the
  simulated one and has no \<open>rawTranscriptData\<close>. A result that it returns after a success
  of the pipeline carries in \<open>rawTranscriptData\<close> the parsed transcript: the document that
  \<^verbatim>\<open>JSON.parse\<close> gave for the body of the object that the store returned for the key taken
  from the path of the completed job's \<^verbatim>\<open>TranscriptFileUri\<close>; the subtitles of the result
  are the conversion of that document. So the field is absent exactly for the fallback
  results.
\<close>

theorem rawTranscriptData_tells_fallback:
  assumes "transcribeAudio sv file language = Inr r"
  shows "(isl (pipeline sv file language) \<longrightarrow>
            r = simulateTranscription file \<and> rawTranscriptData r = None)
       \<and> (\<not> isl (pipeline sv file language) \<longrightarrow>
            pipeline sv file language = Inr r
            \<and> (\<exists>job uri pathname body td.
                  transcriptionJob (poll_loop sv poll_start) = Some job
                \<and> TranscriptFileUri job = Some uri
                \<and> url_pathname sv uri = Inr pathname
                \<and> s3_getObject sv (join CHR ''/'' (drop 2 (split CHR ''/'' pathname))) = Inr body
                \<and> JSON_parse sv (case body of None \<Rightarrow> [] | Some b \<Rightarrow> b) = Inr (Some td)
                \<and> rawTranscriptData r = Some td
                \<and> convertTranscriptToSrt td = Inr (srtContent r)))
       \<and> (rawTranscriptData r = None \<longleftrightarrow> isl (pipeline sv file language))"
proof (cases "pipeline sv file language")
  case (Inl e)
  with assms have r: "r = simulateTranscription file"
    by (simp add: transcribeAudio_def split: if_splits)
  then have "rawTranscriptData r = None"
    by (simp add: simulateTranscription_def Let_def)
  with Inl r show ?thesis by simp
next
  case (Inr r')
  with assms have eq: "r' = r" by (simp add: transcribeAudio_def)
  with Inr have p: "pipeline sv file language = Inr r" by simp
  from pipeline_raw[OF p] have ex: "\<exists>job uri pathname body td.
                  transcriptionJob (poll_loop sv poll_start) = Some job
                \<and> TranscriptFileUri job = Some uri
                \<and> url_pathname sv uri = Inr pathname
                \<and> s3_getObject sv (join CHR ''/'' (drop 2 (split CHR ''/'' pathname))) = Inr body
                \<and> JSON_parse sv (case body of None \<Rightarrow> [] | Some b \<Rightarrow> b) = Inr (Some td)
                \<and> rawTranscriptData r = Some td
                \<and> convertTranscriptToSrt td = Inr (srtContent r)" .
  then have "rawTranscriptData r \<noteq> None" by auto
  with p ex show ?thesis by simp
qed

theorem rawTranscriptData_tells_fallback_witness:
  "rawTranscriptData (simulateTranscription (sample_file 0)) = None
   \<and> (\<exists>r. transcribeAudio (sample_services upload_ok job_completed) (sample_file 0) ''ta-IN''
            = Inr r
          \<and> s3_getObject (sample_services upload_ok job_completed) ''job-1700000000500.json''
            = Inr (Some sample_body)
          \<and> JSON_parse (sample_services upload_ok job_completed) sample_body
            = Inr (Some sample_transcript)
          \<and> rawTranscriptData r = Some sample_transcript
          \<and> convertTranscriptToSrt sample_transcript = Inr (srtContent r))"
proof -
  let ?fail = "sample_services upload_fails job_completed"
  let ?good = "sample_services upload_ok job_completed"
  have f: "transcribeAudio ?fail (sample_file 0) ''ta-IN'' = Inr (simulateTranscription (sample_file 0))"
    by code_simp
  have pf: "isl (pipeline ?fail (sample_file 0) ''ta-IN'')"
    by code_simp
  from rawTranscriptData_tells_fallback[OF f] pf
  have a: "rawTranscriptData (simulateTranscription (sample_file 0)) = None" by blast
  let ?r = "\<lparr>srtContent = ''1\<newline>00:00:00,000 --> 00:00:00,500\<newline>Hello.\<newline>\<newline>'',
             duration = ''0:00'', rawTranscriptData = Some sample_transcript\<rparr>"
  have g: "transcribeAudio ?good (sample_file 0) ''ta-IN'' = Inr ?r"
    by code_simp
  have pg: "\<not> isl (pipeline ?good (sample_file 0) ''ta-IN'')"
    by code_simp
  have s3: "s3_getObject ?good ''job-1700000000500.json'' = Inr (Some sample_body)"
    by (simp add: sample_services_def)
  have js: "\<And>c td. JSON_parse ?good c = Inr (Some td) \<Longrightarrow> c = sample_body \<and> td = sample_transcript"
    by (simp add: sample_services_def split: if_splits)
  from rawTranscriptData_tells_fallback[OF g] pg
  obtain body td where
    "JSON_parse ?good (case body of None \<Rightarrow> [] | Some b \<Rightarrow> b) = Inr (Some td)"
    "rawTranscriptData ?r = Some td" "convertTranscriptToSrt td = Inr (srtContent ?r)"
    by blast
  with js[OF this(1)] s3 g
  have b: "\<exists>r. transcribeAudio ?good (sample_file 0) ''ta-IN'' = Inr r
          \<and> s3_getObject ?good ''job-1700000000500.json'' = Inr (Some sample_body)
          \<and> JSON_parse ?good sample_body = Inr (Some sample_transcript)
          \<and> rawTranscriptData r = Some sample_transcript
          \<and> convertTranscriptToSrt sample_transcript = Inr (srtContent r)"
    by auto
  from a b show ?thesis by blast
qed

end
